theory Spec2Isabelle
  imports Complex_Main "HOL-Library.List_Lexorder" "HOL-Library.Char_ord"
begin


section \<open>Retry with exponential backoff\<close>

text \<open>
  \<^verbatim>\<open>retry_with_backoff\<close> of \<^verbatim>\<open>reliable_pipeline.py\<close> (lines 208-225; the copy in
  \<^verbatim>\<open>idempotent_pipeline.py\<close> differs only by a log line).

  The wrapped function is an opaque callable with side effects: it is a transformer of a
  world \<open>'w\<close> that either raises an \<^verbatim>\<open>Exception\<close> (\<open>Inl e\<close>) or returns (\<open>Inr v\<close>).
  \<^verbatim>\<open>time.sleep\<close> is modelled by the list of the delays it was called with, in order.
  \<^verbatim>\<open>random.random()\<close> is the function \<open>rnd\<close>: \<open>rnd i\<close> is the number drawn during
  attempt \<open>i\<close>.

  The program computes \<^verbatim>\<open>base_delay * (2**attempt) + random.random()\<close> in double precision,
  whose rounding is not the arithmetic of the real numbers. The model does not interpret
  the expression: a double is the real number it denotes, and the parameter \<open>delay\<close> gives
  the value of the expression from the base delay, the attempt and the number drawn.
\<close>

type_synonym ('w, 'e, 'a) operation = "'w \<Rightarrow> ('e + 'a) \<times> 'w"

text \<open>
  What the wrapper raises: the exception caught last, or, when the loop body never ran,
  the \<^verbatim>\<open>TypeError\<close> of \<^verbatim>\<open>raise None\<close>.
\<close>

datatype 'e raised = Raised 'e | TypeError_raise_None

text \<open>The body of \<^verbatim>\<open>for attempt in range(max_attempts)\<close>, over the attempts still to make.\<close>

fun wrapper_loop ::
  "(real \<Rightarrow> nat \<Rightarrow> real \<Rightarrow> real) \<Rightarrow> int \<Rightarrow> real \<Rightarrow> (nat \<Rightarrow> real) \<Rightarrow> ('w, 'e, 'a) operation \<Rightarrow> nat list \<Rightarrow> 'e option \<Rightarrow> 'w \<Rightarrow> real list
    \<Rightarrow> ('e raised + 'a) \<times> 'w \<times> real list" where
  "wrapper_loop delay max_attempts base_delay rnd func [] last_exception w slept =
     (Inl (case last_exception of None \<Rightarrow> TypeError_raise_None | Some e \<Rightarrow> Raised e), w, slept)"
| "wrapper_loop delay max_attempts base_delay rnd func (attempt # rest) last_exception w slept =
     (case func w of
        (Inr v, w') \<Rightarrow> (Inr v, w', slept)
      | (Inl e, w') \<Rightarrow>
          (if int attempt < max_attempts - 1
           then wrapper_loop delay max_attempts base_delay rnd func rest (Some e) w'
                  (slept @ [delay base_delay attempt (rnd attempt)])
           else wrapper_loop delay max_attempts base_delay rnd func rest (Some e) w' slept))"

definition retry_with_backoff ::
  "(real \<Rightarrow> nat \<Rightarrow> real \<Rightarrow> real) \<Rightarrow> int \<Rightarrow> real \<Rightarrow> (nat \<Rightarrow> real) \<Rightarrow> ('w, 'e, 'a) operation \<Rightarrow> 'w \<Rightarrow> ('e raised + 'a) \<times> 'w \<times> real list" where
  "retry_with_backoff delay max_attempts base_delay rnd func w =
     wrapper_loop delay max_attempts base_delay rnd func [0..<nat max_attempts] None w []"

text \<open>The world after \<open>n\<close> invocations of \<open>func\<close>, and the outcome of invocation \<open>n + 1\<close>.\<close>

fun after :: "('w, 'e, 'a) operation \<Rightarrow> 'w \<Rightarrow> nat \<Rightarrow> 'w" where
  "after func w 0 = w"
| "after func w (Suc n) = after func (snd (func w)) n"

definition outcome :: "('w, 'e, 'a) operation \<Rightarrow> 'w \<Rightarrow> nat \<Rightarrow> 'e + 'a" where
  "outcome func w n = fst (func (after func w n))"

text \<open>
  Counting invocations, as the \<^verbatim>\<open>attempt_count += 1\<close> of the functions the tests and
  \<^verbatim>\<open>fail_retry_exhaustion.py\<close> wrap: the world is paired with a counter that every
  invocation increments.
\<close>

definition counting :: "('w, 'e, 'a) operation \<Rightarrow> (nat \<times> 'w, 'e, 'a) operation" where
  "counting func = (\<lambda>(attempt_count, w). case func w of (r, w') \<Rightarrow> (r, (Suc attempt_count, w')))"

text \<open>The delays of attempts \<open>0 .. m - 1\<close>.\<close>

definition delays :: "(real \<Rightarrow> nat \<Rightarrow> real \<Rightarrow> real) \<Rightarrow> real \<Rightarrow> (nat \<Rightarrow> real) \<Rightarrow> nat \<Rightarrow> real list" where
  "delays delay base_delay rnd m = map (\<lambda>i. delay base_delay i (rnd i)) [0..<m]"

text \<open>
  The expression evaluated without rounding, for the concrete runs of this theory, none of
  which depends on the value of a delay.
\<close>

definition exact_delay :: "real \<Rightarrow> nat \<Rightarrow> real \<Rightarrow> real" where
  "exact_delay base_delay attempt jitter = base_delay * 2 ^ attempt + jitter"

text \<open>
  The wrapped functions of \<^verbatim>\<open>test_reliability.py\<close>: \<^verbatim>\<open>flaky_function\<close> raises while its own
  counter is below \<open>k\<close>, \<^verbatim>\<open>always_fail_function\<close> raises on every call.
\<close>

definition flaky_function :: "nat \<Rightarrow> (nat, string, string) operation" where
  "flaky_function k = (\<lambda>attempt_count.
     (if Suc attempt_count < k then Inl ''Simulated failure'' else Inr ''success'', Suc attempt_count))"

definition always_fail_function :: "(nat, string, string) operation" where
  "always_fail_function = (\<lambda>attempt_count. (Inl ''Always fails'', Suc attempt_count))"

section \<open>Circuit breaker\<close>

text \<open>
  \<^verbatim>\<open>CircuitBreaker\<close> of \<^verbatim>\<open>fail_retry_exhaustion.py\<close> (lines 93-129). The object's fields are a
  record; \<^verbatim>\<open>self.state\<close> only ever holds one of three string constants. The two readings of
  \<^verbatim>\<open>time.time()\<close>, at the check on entry and in the exception handler, are the arguments
  \<open>now\<close> and \<open>later\<close>.
\<close>

datatype breaker_state = CLOSED | OPEN | HALF_OPEN

record circuit_breaker =
  failure_threshold :: int
  timeout :: real
  failure_count :: int
  last_failure_time :: "real option"
  state :: breaker_state

definition CircuitBreaker :: "int \<Rightarrow> real \<Rightarrow> circuit_breaker" where
  "CircuitBreaker threshold cooldown =
     \<lparr>failure_threshold = threshold, timeout = cooldown, failure_count = 0,
      last_failure_time = None, state = CLOSED\<rparr>"

text \<open>
  What \<^verbatim>\<open>call\<close> raises: its own \<^verbatim>\<open>Exception("Circuit breaker is OPEN - calls blocked")\<close>,
  the exception of the wrapped function raised again, or the \<^verbatim>\<open>TypeError\<close> of subtracting
  \<^verbatim>\<open>None\<close> from a float when the breaker is open and has no failure time.
\<close>

datatype 'e breaker_error = CircuitOpen | Failed 'e | TypeError_None_time

text \<open>Lines 102-107: the check made on entry while the breaker is open.\<close>

definition admit :: "circuit_breaker \<Rightarrow> real \<Rightarrow> 'e breaker_error + circuit_breaker" where
  "admit self now =
     (if state self = OPEN then
        (case last_failure_time self of
           None \<Rightarrow> Inl TypeError_None_time
         | Some t \<Rightarrow>
             if now - t > timeout self then Inr (self\<lparr>state := HALF_OPEN\<rparr>)
             else Inl CircuitOpen)
      else Inr self)"

text \<open>Lines 109-129: the invocation and the bookkeeping after it.\<close>

definition invoke ::
  "circuit_breaker \<Rightarrow> real \<Rightarrow> ('w, 'e, 'a) operation \<Rightarrow> 'w
     \<Rightarrow> ('e breaker_error + 'a) \<times> circuit_breaker \<times> 'w" where
  "invoke self later func w =
     (case func w of
        (Inr result, w') \<Rightarrow>
          (Inr result,
           if state self = HALF_OPEN then self\<lparr>state := CLOSED, failure_count := 0\<rparr> else self,
           w')
      | (Inl e, w') \<Rightarrow>
          (let self1 = self\<lparr>failure_count := failure_count self + 1,
                            last_failure_time := Some later\<rparr>
           in (Inl (Failed e),
               if failure_count self1 \<ge> failure_threshold self1 then self1\<lparr>state := OPEN\<rparr>
               else self1,
               w')))"

definition call ::
  "circuit_breaker \<Rightarrow> real \<Rightarrow> real \<Rightarrow> ('w, 'e, 'a) operation \<Rightarrow> 'w
     \<Rightarrow> ('e breaker_error + 'a) \<times> circuit_breaker \<times> 'w" where
  "call self now later func w =
     (case admit self now of
        Inl err \<Rightarrow> (Inl err, self, w)
      | Inr self1 \<Rightarrow> invoke self1 later func w)"

text \<open>
  A sequence of calls on one breaker, each with its clock readings and the outcome the
  service has at that moment, as the loop of lines 138-142 makes them (it catches and
  prints every exception). The world is the number of times the service was invoked.
\<close>

definition service :: "(string + string) \<Rightarrow> (nat, string, string) operation" where
  "service r = (\<lambda>invocations. (r, Suc invocations))"

fun calls :: "circuit_breaker \<Rightarrow> (real \<times> real \<times> (string + string)) list \<Rightarrow> nat \<Rightarrow> circuit_breaker \<times> nat" where
  "calls self [] w = (self, w)"
| "calls self ((now, later, r) # rest) w =
     (case call self now later (service r) w of (_, self', w') \<Rightarrow> calls self' rest w')"

text \<open>The number of failing calls in such a sequence.\<close>

definition failures :: "(real \<times> real \<times> (string + string)) list \<Rightarrow> nat" where
  "failures rs = length (filter (\<lambda>(now, later, r). isl r) rs)"

section \<open>Tiered logger and log recovery\<close>

text \<open>
  \<^verbatim>\<open>RobustLogger\<close> and \<^verbatim>\<open>LogRecovery\<close> of \<^verbatim>\<open>fail_logging_failure.py\<close> (lines 180-347).

  A statement either raises an exception, named by a string, or returns a value; both
  leave a state behind, so a handler starts from the state the failing statement left.
\<close>

type_synonym exn = string

type_synonym ('a, 's) result = "(exn \<times> 's) + ('a \<times> 's)"

definition return :: "'a \<Rightarrow> 's \<Rightarrow> ('a, 's) result" where
  "return a s = Inr (a, s)"

definition raise :: "exn \<Rightarrow> 's \<Rightarrow> ('a, 's) result" where
  "raise e s = Inl (e, s)"

definition and_then :: "('a, 's) result \<Rightarrow> ('a \<Rightarrow> 's \<Rightarrow> ('b, 's) result) \<Rightarrow> ('b, 's) result" where
  "and_then m f = (case m of Inl es \<Rightarrow> Inl es | Inr (a, s) \<Rightarrow> f a s)"

text \<open>\<^verbatim>\<open>try: m  except Exception as e: handler\<close>\<close>

definition try_except :: "('a, 's) result \<Rightarrow> (exn \<Rightarrow> 's \<Rightarrow> ('a, 's) result) \<Rightarrow> ('a, 's) result" where
  "try_except m handler = (case m of Inl (e, s) \<Rightarrow> handler e s | Inr as \<Rightarrow> Inr as)"

text \<open>
  The values a caller can pass: strings, integers, truth values, \<^verbatim>\<open>None\<close>, dictionaries
  with string keys, and \<open>PObject\<close> for any other object (one that \<^verbatim>\<open>json.dumps\<close> cannot
  serialise).
\<close>

datatype pyval =
    PStr string
  | PInt int
  | PBool bool
  | PNone
  | PDict "(string \<times> pyval) list"
  | PObject

text \<open>
  The dictionary \<^verbatim>\<open>log_entry\<close> has a fixed set of keys: a record. Level and message are
  whatever values the caller passed. The metadata is the dictionary of the keyword
  arguments; the type \<open>'m\<close> stands for it.
\<close>

record 'm log_entry =
  timestamp :: string
  level :: pyval
  message :: pyval
  log_pipeline_name :: string
  log_run_id :: string
  log_metadata :: 'm

text \<open>
  The lines the script prints, one constructor for each \<^verbatim>\<open>print\<close>, with the value or the
  exception the line shows.
\<close>

datatype printed =
    Database_log pyval
  | Database_logging_failed exn
  | File_log_fallback pyval
  | File_logging_failed exn
  | Critical_log_fallback pyval
  | All_logging_failed exn
  | No_fallback_log_file_found
  | Recovered_log_entries nat
  | Log_recovery_failed exn

text \<open>
  What the logger writes to. \<open>conn_usable\<close> says whether statements on \<^verbatim>\<open>self.conn\<close>
  succeed (the script closes the connection to make them raise); rows inserted are
  \<open>uncommitted\<close> until \<^verbatim>\<open>conn.commit()\<close> moves them to the table \<open>pipeline_logs\<close>. The two
  files are lists of lines, \<open>None\<close> while a file does not exist; \<open>fallback_writable\<close> and
  \<open>critical_writable\<close> say whether opening the file for appending and writing succeeds.
  A line of the critical file is \<^verbatim>\<open>f"{timestamp} - {level} - {simple_message}"\<close>: it is
  given by the three values it shows. A line on standard error is \<^verbatim>\<open>"CRITICAL: "\<close> and a
  message: it is given by the message.
\<close>

type_synonym critical_line = "string \<times> pyval \<times> pyval"

record 'm sinks =
  conn_usable :: bool
  pipeline_logs :: "'m log_entry list"
  uncommitted :: "'m log_entry list"
  fallback_log :: "string list option"
  fallback_writable :: bool
  critical_log :: "critical_line list option"
  critical_writable :: bool
  stdout :: "printed list"
  stderr :: "pyval list"

definition print :: "printed \<Rightarrow> 'm sinks \<Rightarrow> (unit, 'm sinks) result" where
  "print p s = return () (s\<lparr>stdout := stdout s @ [p]\<rparr>)"

definition print_stderr :: "pyval \<Rightarrow> 'm sinks \<Rightarrow> (unit, 'm sinks) result" where
  "print_stderr line s = return () (s\<lparr>stderr := stderr s @ [line]\<rparr>)"

text \<open>\<^verbatim>\<open>with self.conn.cursor() as cur: cur.execute("INSERT INTO ops.pipeline_logs ...")\<close>\<close>

definition execute_insert :: "'m log_entry \<Rightarrow> 'm sinks \<Rightarrow> (unit, 'm sinks) result" where
  "execute_insert row s =
     (if conn_usable s then return () (s\<lparr>uncommitted := uncommitted s @ [row]\<rparr>)
      else raise ''InterfaceError: connection already closed'' s)"

definition commit :: "'m sinks \<Rightarrow> (unit, 'm sinks) result" where
  "commit s =
     (if conn_usable s
      then return () (s\<lparr>pipeline_logs := pipeline_logs s @ uncommitted s, uncommitted := []\<rparr>)
      else raise ''InterfaceError: connection already closed'' s)"

text \<open>\<^verbatim>\<open>with open(path, "a") as f: f.write(line)\<close>, for each of the two files.\<close>

definition lines_of :: "'a list option \<Rightarrow> 'a list" where
  "lines_of file = (case file of None \<Rightarrow> [] | Some ls \<Rightarrow> ls)"

definition append_fallback :: "string \<Rightarrow> 'm sinks \<Rightarrow> (unit, 'm sinks) result" where
  "append_fallback line s =
     (if fallback_writable s
      then return () (s\<lparr>fallback_log := Some (lines_of (fallback_log s) @ [line])\<rparr>)
      else raise ''OSError'' s)"

definition append_critical :: "critical_line \<Rightarrow> 'm sinks \<Rightarrow> (unit, 'm sinks) result" where
  "append_critical line s =
     (if critical_writable s
      then return () (s\<lparr>critical_log := Some (lines_of (critical_log s) @ [line])\<rparr>)
      else raise ''OSError'' s)"

record robust_logger =
  rl_run_id :: string
  rl_pipeline_name :: string

definition RobustLogger :: robust_logger where
  "RobustLogger = \<lparr>rl_run_id = ''robust-run-456'', rl_pipeline_name = ''robust-pipeline''\<rparr>"

definition log_to_database :: "'m log_entry \<Rightarrow> 'm sinks \<Rightarrow> (bool, 'm sinks) result" where
  "log_to_database log_entry s =
     try_except
       (and_then (execute_insert log_entry s) (\<lambda>_ s1.
        and_then (commit s1) (\<lambda>_ s2.
        and_then (print (Database_log (message log_entry)) s2) (\<lambda>_ s3.
        return True s3))))
       (\<lambda>e s'. and_then (print (Database_logging_failed e) s') (\<lambda>_ s''. return False s''))"

text \<open>
  \<^verbatim>\<open>json.dumps\<close> is the parameter \<open>dumps\<close>: it gives the line of a record, or the exception
  it raises on a record with a value it cannot serialise.
\<close>

definition log_to_file ::
  "('m log_entry \<Rightarrow> exn + string) \<Rightarrow> 'm log_entry \<Rightarrow> 'm sinks \<Rightarrow> (bool, 'm sinks) result" where
  "log_to_file dumps log_entry s =
     try_except
       (and_then (case dumps log_entry of Inl e \<Rightarrow> raise e s | Inr log_line \<Rightarrow> return log_line s)
          (\<lambda>log_line s1.
        and_then (append_fallback log_line s1) (\<lambda>_ s2.
        and_then (print (File_log_fallback (message log_entry)) s2) (\<lambda>_ s3.
        return True s3))))
       (\<lambda>e s'. and_then (print (File_logging_failed e) s') (\<lambda>_ s''. return False s''))"

definition log_to_critical_file :: "'m log_entry \<Rightarrow> pyval \<Rightarrow> 'm sinks \<Rightarrow> (unit, 'm sinks) result" where
  "log_to_critical_file log_entry simple_message s =
     try_except
       (and_then
          (append_critical (timestamp log_entry, level log_entry, simple_message) s)
          (\<lambda>_ s1. print (Critical_log_fallback simple_message) s1))
       (\<lambda>e s'. and_then (print (All_logging_failed e) s') (\<lambda>_ s''.
                print_stderr simple_message s''))"

text \<open>The exception \<^verbatim>\<open>_log_to_file\<close> catches when it fails: that of \<open>dumps\<close>, or that of the write.\<close>

definition file_error :: "('m log_entry \<Rightarrow> exn + string) \<Rightarrow> 'm log_entry \<Rightarrow> exn" where
  "file_error dumps e = (case dumps e of Inl x \<Rightarrow> x | Inr line \<Rightarrow> ''OSError'')"

text \<open>
  The body of \<^verbatim>\<open>RobustLogger.log\<close>: lines 194-201 build the record, lines 203-212 try the
  sinks. \<open>now\<close> is \<^verbatim>\<open>datetime.utcnow().isoformat() + "Z"\<close>.
\<close>

definition make_log_entry :: "robust_logger \<Rightarrow> string \<Rightarrow> pyval \<Rightarrow> pyval \<Rightarrow> 'm \<Rightarrow> 'm log_entry" where
  "make_log_entry self now lvl msg metadata =
     \<lparr>timestamp = now, level = lvl, message = msg,
      log_pipeline_name = rl_pipeline_name self, log_run_id = rl_run_id self,
      log_metadata = metadata\<rparr>"

definition log_body ::
  "('m log_entry \<Rightarrow> exn + string) \<Rightarrow> robust_logger \<Rightarrow> string \<Rightarrow> pyval \<Rightarrow> pyval \<Rightarrow> 'm \<Rightarrow> 'm sinks
     \<Rightarrow> (unit, 'm sinks) result" where
  "log_body dumps self now lvl msg metadata s =
     (let log_entry = make_log_entry self now lvl msg metadata
      in and_then (log_to_database log_entry s) (\<lambda>logged s1.
           if logged then return () s1
           else and_then (log_to_file dumps log_entry s1) (\<lambda>logged s2.
                  if logged then return () s2
                  else log_to_critical_file log_entry msg s2)))"

text \<open>
  The signature is \<^verbatim>\<open>def log(self, level, message, **metadata)\<close> (line 192). A call on a
  logger gives positional arguments and keyword arguments. Python binds them before the
  body runs and raises \<^verbatim>\<open>TypeError\<close> when it cannot: more than two positional arguments
  (the method takes \<^verbatim>\<open>self\<close> and two more), a keyword named \<^verbatim>\<open>self\<close>, a parameter given
  both by position and by keyword, a parameter not given, or a keyword given twice. The
  keywords that name no parameter make up \<^verbatim>\<open>metadata\<close>.
\<close>

definition bind_log :: "pyval list \<Rightarrow> (string \<times> pyval) list \<Rightarrow> exn + pyval \<times> pyval \<times> (string \<times> pyval) list" where
  "bind_log args kwargs =
     (let names = map fst kwargs;
          extra = filter (\<lambda>(k, v). k \<noteq> ''level'' \<and> k \<noteq> ''message'') kwargs
      in if \<not> distinct names \<or> ''self'' \<in> set names then Inl ''TypeError''
         else (case args of
                 [] \<Rightarrow>
                   (case (map_of kwargs ''level'', map_of kwargs ''message'') of
                      (Some lvl, Some msg) \<Rightarrow> Inr (lvl, msg, extra)
                    | _ \<Rightarrow> Inl ''TypeError'')
               | [lvl] \<Rightarrow>
                   (if ''level'' \<in> set names then Inl ''TypeError''
                    else (case map_of kwargs ''message'' of
                            Some msg \<Rightarrow> Inr (lvl, msg, extra)
                          | None \<Rightarrow> Inl ''TypeError''))
               | [lvl, msg] \<Rightarrow>
                   (if ''level'' \<in> set names \<or> ''message'' \<in> set names then Inl ''TypeError''
                    else Inr (lvl, msg, kwargs))
               | _ \<Rightarrow> Inl ''TypeError''))"

text \<open>\<^verbatim>\<open>RobustLogger.log\<close> as a caller reaches it: the binding of the arguments, then the body.\<close>

definition robust_log ::
  "((string \<times> pyval) list log_entry \<Rightarrow> exn + string) \<Rightarrow> robust_logger \<Rightarrow> string \<Rightarrow> pyval list
     \<Rightarrow> (string \<times> pyval) list \<Rightarrow> (string \<times> pyval) list sinks
     \<Rightarrow> (unit, (string \<times> pyval) list sinks) result" where
  "robust_log dumps self now args kwargs s =
     (case bind_log args kwargs of
        Inl e \<Rightarrow> raise e s
      | Inr (lvl, msg, metadata) \<Rightarrow> log_body dumps self now lvl msg metadata s)"

text \<open>
  \<^verbatim>\<open>str.strip()\<close> on the characters of a line: Python's white space below 128 is 9-13 and
  28-32.
\<close>

definition is_space :: "char \<Rightarrow> bool" where
  "is_space c = (let n = (of_char c :: nat) in (9 \<le> n \<and> n \<le> 13) \<or> (28 \<le> n \<and> n \<le> 32))"

definition strip :: "string \<Rightarrow> string" where
  "strip line = rev (dropWhile is_space (rev (dropWhile is_space line)))"

text \<open>
  The loop of \<^verbatim>\<open>recover_file_logs\<close> (lines 319-341) over the lines still to read.
  \<open>loads\<close> stands for \<^verbatim>\<open>json.loads(line)\<close> and the six reads \<^verbatim>\<open>log_entry["..."]\<close> that
  follow it: the record, or the exception one of them raises on a line that is not the
  JSON text of such a record.
\<close>

fun recover_lines ::
  "(string \<Rightarrow> exn + 'm log_entry) \<Rightarrow> string list \<Rightarrow> nat \<Rightarrow> 'm sinks \<Rightarrow> (nat, 'm sinks) result" where
  "recover_lines loads [] recovered_count s = return recovered_count s"
| "recover_lines loads (line # rest) recovered_count s =
     (if strip line \<noteq> [] then
        and_then (case loads line of Inl e \<Rightarrow> raise e s | Inr log_entry \<Rightarrow> return log_entry s)
          (\<lambda>log_entry s1.
        and_then (execute_insert log_entry s1) (\<lambda>_ s2.
        recover_lines loads rest (Suc recovered_count) s2))
      else recover_lines loads rest recovered_count s)"

text \<open>\<^verbatim>\<open>LogRecovery.recover_file_logs\<close> on the fallback file.\<close>

definition recover_file_logs ::
  "(string \<Rightarrow> exn + 'm log_entry) \<Rightarrow> 'm sinks \<Rightarrow> (unit, 'm sinks) result" where
  "recover_file_logs loads s =
     (case fallback_log s of
        None \<Rightarrow> print No_fallback_log_file_found s
      | Some file_lines \<Rightarrow>
          try_except
            (and_then (recover_lines loads file_lines 0 s) (\<lambda>recovered_count s1.
             and_then (commit s1) (\<lambda>_ s2.
             print (Recovered_log_entries recovered_count) s2)))
            (\<lambda>e s'. print (Log_recovery_failed e) s'))"

text \<open>The records of the lines that are not blank, where every such line parses.\<close>

definition parsed :: "(string \<Rightarrow> exn + 'm log_entry) \<Rightarrow> string list \<Rightarrow> 'm log_entry list" where
  "parsed loads file_lines = map (\<lambda>line. projr (loads line)) (filter (\<lambda>line. strip line \<noteq> []) file_lines)"

text \<open>
  A parser for concrete runs: a line that starts with an opening brace is the record with
  the rest of the line as its message, any other line raises. A serialiser for concrete
  runs: it raises when a value of the metadata is an object it cannot serialise, and
  otherwise gives a brace followed by the message.
\<close>

definition toy_loads :: "string \<Rightarrow> exn + unit log_entry" where
  "toy_loads line =
     (case line of
        c # rest \<Rightarrow>
          if c = CHR ''{''
          then Inr \<lparr>timestamp = ''2024-01-01T00:00:00Z'', level = PStr ''INFO'', message = PStr rest,
                    log_pipeline_name = ''robust-pipeline'', log_run_id = ''robust-run-456'',
                    log_metadata = ()\<rparr>
          else Inl ''JSONDecodeError''
      | [] \<Rightarrow> Inl ''JSONDecodeError'')"

definition toy_dumps :: "(string \<times> pyval) list log_entry \<Rightarrow> exn + string" where
  "toy_dumps e =
     (if list_ex (\<lambda>(k, v). v = PObject) (log_metadata e) then Inl ''TypeError''
      else Inr (''{'' @ (case message e of PStr text \<Rightarrow> text | _ \<Rightarrow> [])))"

definition empty_sinks :: "'m sinks" where
  "empty_sinks = \<lparr>conn_usable = True, pipeline_logs = [], uncommitted = [], fallback_log = Some [],
                  fallback_writable = True, critical_log = Some [], critical_writable = True,
                  stdout = [], stderr = []\<rparr>"

section \<open>Checkpoint manager\<close>

text \<open>
  \<^verbatim>\<open>CheckpointManager\<close> of \<^verbatim>\<open>reliable_pipeline.py\<close> (lines 115-205) over the table
  \<^verbatim>\<open>ops.pipeline_checkpoint\<close>. The file that declares the table for this pipeline,
  \<^verbatim>\<open>checkpoint_schema.sql\<close>, is not among the sources; the columns and the unique key
  \<^verbatim>\<open>(pipeline_name, run_id, stage, checkpoint_key)\<close> are those the two \<^verbatim>\<open>INSERT\<close> statements
  name. A row is a record of the columns the code writes. A column is \<open>None\<close> when no
  statement has given it a value: it then holds what the table's declaration provides
  (\<^verbatim>\<open>NULL\<close> or a default). Times are of any type \<open>'t\<close>; \<open>current_time\<close> is the reading of
  \<^verbatim>\<open>datetime.utcnow()\<close>. The metadata dictionary is a list of keys with integer values, as
  every caller passes. Statements on the connection are taken to succeed.
\<close>

record 't checkpoint =
  pipeline_name :: string
  run_id :: string
  stage :: string
  checkpoint_key :: string
  checkpoint_value :: "string option"
  status :: string
  start_time :: "'t option"
  end_time :: "'t option"
  duration_ms :: "int option"
  metadata :: "(string \<times> int) list option"
  updated_at :: "'t option"

text \<open>The object: \<open>db_conn\<close> says whether \<^verbatim>\<open>self.db_conn\<close> is a connection rather than \<^verbatim>\<open>None\<close>.\<close>

record checkpoint_manager =
  cm_pipeline_name :: string
  cm_run_id :: string
  db_conn :: bool

text \<open>Two rows conflict when they agree on the unique key.\<close>

definition conflicts :: "'t checkpoint \<Rightarrow> 't checkpoint \<Rightarrow> bool" where
  "conflicts new row =
     (pipeline_name row = pipeline_name new \<and> run_id row = run_id new \<and>
      stage row = stage new \<and> checkpoint_key row = checkpoint_key new)"

text \<open>The rows of one unit of one run: what a \<^verbatim>\<open>WHERE\<close> on the four key columns selects.\<close>

definition unit_row :: "checkpoint_manager \<Rightarrow> string \<Rightarrow> string \<Rightarrow> 't checkpoint \<Rightarrow> bool" where
  "unit_row self stg key row =
     (pipeline_name row = cm_pipeline_name self \<and> run_id row = cm_run_id self \<and>
      stage row = stg \<and> checkpoint_key row = key)"

definition rows_of :: "checkpoint_manager \<Rightarrow> string \<Rightarrow> string \<Rightarrow> 't checkpoint list \<Rightarrow> 't checkpoint list" where
  "rows_of self stg key table = filter (unit_row self stg key) table"

text \<open>The table's unique constraint.\<close>

definition unique_key :: "'t checkpoint list \<Rightarrow> bool" where
  "unique_key table =
     distinct (map (\<lambda>row. (pipeline_name row, run_id row, stage row, checkpoint_key row)) table)"

text \<open>\<^verbatim>\<open>INSERT ... ON CONFLICT (...) DO UPDATE SET\<close> of the six columns listed in lines 162-167.\<close>

definition insert_or_update :: "'t checkpoint \<Rightarrow> 't checkpoint list \<Rightarrow> 't checkpoint list" where
  "insert_or_update new table =
     (if list_ex (conflicts new) table
      then map (\<lambda>row. if conflicts new row
                       then row\<lparr>checkpoint_value := checkpoint_value new, status := status new,
                                 end_time := end_time new, duration_ms := duration_ms new,
                                 metadata := metadata new, updated_at := updated_at new\<rparr>
                       else row) table
      else table @ [new])"

text \<open>\<^verbatim>\<open>INSERT ... ON CONFLICT (...) DO NOTHING\<close>\<close>

definition insert_or_nothing :: "'t checkpoint \<Rightarrow> 't checkpoint list \<Rightarrow> 't checkpoint list" where
  "insert_or_nothing new table = (if list_ex (conflicts new) table then table else table @ [new])"

text \<open>
  \<^verbatim>\<open>set_checkpoint(stage, checkpoint_key, checkpoint_value, status="completed", metadata=None)\<close>.
  An optional argument is \<open>None\<close> when the call omits it. A dictionary counts as true when
  it is given and not empty.
\<close>

definition truthy :: "(string \<times> int) list option \<Rightarrow> bool" where
  "truthy metadata_arg = (case metadata_arg of None \<Rightarrow> False | Some d \<Rightarrow> d \<noteq> [])"

definition dict_get :: "(string \<times> int) list \<Rightarrow> string \<Rightarrow> int \<Rightarrow> int" where
  "dict_get d k dflt = (case map_of d k of None \<Rightarrow> dflt | Some v \<Rightarrow> v)"

text \<open>The row of values the statement is executed with (lines 169-181).\<close>

definition checkpoint_row ::
  "checkpoint_manager \<Rightarrow> string \<Rightarrow> string \<Rightarrow> string \<Rightarrow> string option \<Rightarrow> (string \<times> int) list option \<Rightarrow> 't
     \<Rightarrow> 't checkpoint" where
  "checkpoint_row self stg key val status_arg metadata_arg current_time =
     \<lparr>pipeline_name = cm_pipeline_name self, run_id = cm_run_id self, stage = stg,
      checkpoint_key = key, checkpoint_value = Some val,
      status = (case status_arg of None \<Rightarrow> ''completed'' | Some s \<Rightarrow> s),
      start_time = Some current_time, end_time = Some current_time,
      duration_ms = Some (if truthy metadata_arg
                          then dict_get (the metadata_arg) ''duration_ms'' 0 else 0),
      metadata = (if truthy metadata_arg then metadata_arg else None),
      updated_at = Some current_time\<rparr>"

definition set_checkpoint ::
  "checkpoint_manager \<Rightarrow> string \<Rightarrow> string \<Rightarrow> string \<Rightarrow> string option \<Rightarrow> (string \<times> int) list option
     \<Rightarrow> 't \<Rightarrow> 't checkpoint list \<Rightarrow> 't checkpoint list" where
  "set_checkpoint self stg key val status_arg metadata_arg current_time table =
     (if \<not> db_conn self then table
      else insert_or_update (checkpoint_row self stg key val status_arg metadata_arg current_time) table)"

text \<open>\<^verbatim>\<open>start_stage(stage, checkpoint_key)\<close>: the row it inserts, and the statement.\<close>

definition started_row :: "checkpoint_manager \<Rightarrow> string \<Rightarrow> string \<Rightarrow> 't \<Rightarrow> 't checkpoint" where
  "started_row self stg key current_time =
     \<lparr>pipeline_name = cm_pipeline_name self, run_id = cm_run_id self, stage = stg,
      checkpoint_key = key, checkpoint_value = None, status = ''in_progress'',
      start_time = Some current_time, end_time = None, duration_ms = None,
      metadata = None, updated_at = None\<rparr>"

definition start_stage ::
  "checkpoint_manager \<Rightarrow> string \<Rightarrow> string \<Rightarrow> 't \<Rightarrow> 't checkpoint list \<Rightarrow> 't checkpoint list" where
  "start_stage self stg key current_time table =
     (if \<not> db_conn self then table
      else insert_or_nothing (started_row self stg key current_time) table)"

definition get_checkpoint ::
  "checkpoint_manager \<Rightarrow> string \<Rightarrow> string \<Rightarrow> 't checkpoint list \<Rightarrow> string option" where
  "get_checkpoint self stg key table =
     (if \<not> db_conn self then None
      else (case rows_of self stg key table of [] \<Rightarrow> None | row # _ \<Rightarrow> checkpoint_value row))"

section \<open>The reliable pipeline\<close>

text \<open>
  \<^verbatim>\<open>ReliablePipeline\<close> of \<^verbatim>\<open>reliable_pipeline.py\<close> (lines 228-479). The state a run works on:
  the checkpoint table, a clock that counts the readings of \<^verbatim>\<open>datetime.utcnow()\<close> (each
  reading is later than the one before), and the business tables, which only the SQL of a
  stage touches. That SQL (\<^verbatim>\<open>cursor.execute\<close>, \<^verbatim>\<open>conn.commit\<close>, \<^verbatim>\<open>cursor.rowcount\<close>, and
  \<^verbatim>\<open>conn.rollback\<close> when it raises) is an opaque operation on the business tables that returns
  a row count or raises. The calls of the logger write to the log only and are left out.
\<close>

record 'b pipeline_state =
  checkpoints :: "nat checkpoint list"
  clock :: nat
  business :: 'b

text \<open>
  The body of \<^verbatim>\<open>update_product_performance\<close> and of \<^verbatim>\<open>update_country_sales\<close>, which differ in
  the name of the stage and in the SQL. On success the call is
  \<^verbatim>\<open>set_checkpoint(name, "end", "completed", metadata={"rows_updated": row_count})\<close>, in the
  handler it is \<^verbatim>\<open>set_checkpoint(name, "end", "failed")\<close>: neither passes \<^verbatim>\<open>status\<close>.
\<close>

definition stage_body ::
  "checkpoint_manager \<Rightarrow> string \<Rightarrow> ('b, exn, int) operation \<Rightarrow> ('b pipeline_state, exn, int) operation" where
  "stage_body checkpoint name sql s =
     (let s1 = s\<lparr>checkpoints := start_stage checkpoint name ''start'' (clock s) (checkpoints s),
                  clock := Suc (clock s)\<rparr>
      in case sql (business s1) of
           (Inr row_count, b) \<Rightarrow>
             (Inr row_count,
              s1\<lparr>business := b,
                  checkpoints := set_checkpoint checkpoint name ''end'' ''completed'' None
                                   (Some [(''rows_updated'', row_count)]) (clock s1) (checkpoints s1),
                  clock := Suc (clock s1)\<rparr>)
         | (Inl e, b) \<Rightarrow>
             (Inl e,
              s1\<lparr>business := b,
                  checkpoints := set_checkpoint checkpoint name ''end'' ''failed'' None None
                                   (clock s1) (checkpoints s1),
                  clock := Suc (clock s1)\<rparr>))"

text \<open>The decorated methods: \<^verbatim>\<open>@retry_with_backoff(max_attempts=3, base_delay=1.0)\<close>.\<close>

definition update_stage ::
  "(real \<Rightarrow> nat \<Rightarrow> real \<Rightarrow> real) \<Rightarrow> checkpoint_manager \<Rightarrow> (nat \<Rightarrow> real) \<Rightarrow> string \<Rightarrow> ('b, exn, int) operation \<Rightarrow> 'b pipeline_state
     \<Rightarrow> (exn raised + int) \<times> 'b pipeline_state \<times> real list" where
  "update_stage delay checkpoint rnd name sql s =
     retry_with_backoff delay 3 1 rnd (stage_body checkpoint name sql) s"

text \<open>
  \<^verbatim>\<open>run_pipeline\<close>, after \<^verbatim>\<open>connect\<close> has made the checkpoint manager of the run: the two
  stages in order, the exception of the first that fails raised again.
\<close>

definition ReliablePipeline :: "string \<Rightarrow> checkpoint_manager" where
  "ReliablePipeline uuid = \<lparr>cm_pipeline_name = ''reliable_gold_pipeline'', cm_run_id = uuid, db_conn = True\<rparr>"

definition run_pipeline ::
  "(real \<Rightarrow> nat \<Rightarrow> real \<Rightarrow> real) \<Rightarrow> checkpoint_manager \<Rightarrow> (nat \<Rightarrow> real) \<Rightarrow> ('b, exn, int) operation \<Rightarrow> ('b, exn, int) operation
     \<Rightarrow> 'b pipeline_state \<Rightarrow> (exn raised + int \<times> int) \<times> 'b pipeline_state" where
  "run_pipeline delay checkpoint rnd product_sql country_sql s =
     (case update_stage delay checkpoint rnd ''product_performance'' product_sql s of
        (Inl e, s1, _) \<Rightarrow> (Inl e, s1)
      | (Inr product_rows, s1, _) \<Rightarrow>
          (case update_stage delay checkpoint rnd ''country_sales'' country_sql s1 of
             (Inl e, s2, _) \<Rightarrow> (Inl e, s2)
           | (Inr country_rows, s2, _) \<Rightarrow> (Inr (product_rows, country_rows), s2)))"

text \<open>
  The run of the end-to-end scenario: the SQL of the first stage returns 5 rows, that of the
  second raises each time it runs; the business state counts the runs of the second.
\<close>

definition product_sql_ok :: "(nat, exn, int) operation" where
  "product_sql_ok = (\<lambda>b. (Inr 5, b))"

definition country_sql_failing :: "(nat, exn, int) operation" where
  "country_sql_failing = (\<lambda>b. (Inl ''OperationalError'', Suc b))"

definition scenario :: "(exn raised + int \<times> int) \<times> nat pipeline_state" where
  "scenario = run_pipeline exact_delay (ReliablePipeline ''run-1'') (\<lambda>i. 0) product_sql_ok country_sql_failing
                \<lparr>checkpoints = [], clock = 0, business = 0\<rparr>"

section \<open>The idempotent monthly pipeline\<close>

text \<open>
  \<^verbatim>\<open>idempotent_pipeline.py\<close>: the table \<^verbatim>\<open>ops.processed_months\<close>, its \<^verbatim>\<open>CheckpointManager\<close>
  (lines 31-64) and the sweep of \<^verbatim>\<open>main\<close> (lines 214-253).

  The key of a month is \<^verbatim>\<open>f"{year}-{month:02d}"\<close>: the decimal text of the year, a hyphen, and
  the month padded with a zero to two characters.
\<close>

fun str_nat :: "nat \<Rightarrow> string" where
  "str_nat n = (if n < 10 then [''0123456789'' ! n] else str_nat (n div 10) @ [''0123456789'' ! (n mod 10)])"

declare str_nat.simps [simp del]

definition str_int :: "int \<Rightarrow> string" where
  "str_int i = (if i < 0 then ''-'' @ str_nat (nat (- i)) else str_nat (nat i))"

definition format_02d :: "int \<Rightarrow> string" where
  "format_02d i = (if 0 \<le> i \<and> i < 10 then ''0'' @ str_int i else str_int i)"

definition month_key_of :: "int \<Rightarrow> int \<Rightarrow> string" where
  "month_key_of y m = str_int y @ ''-'' @ format_02d m"

text \<open>
  A row of \<^verbatim>\<open>ops.processed_months\<close>, with the columns the statements write; \<open>month_key\<close> is
  unique. The time is the reading of \<^verbatim>\<open>CURRENT_TIMESTAMP\<close>.
\<close>

record 't processed_month =
  month_key :: string
  year :: int
  month :: int
  processed_at :: 't
  month_status :: string

definition get_processed_months :: "'t processed_month list \<Rightarrow> string list" where
  "get_processed_months table = sort (map month_key table)"

text \<open>\<^verbatim>\<open>INSERT ... ON CONFLICT (month_key) DO UPDATE SET status, processed_at\<close>\<close>

definition set_month_processed ::
  "int \<Rightarrow> int \<Rightarrow> string \<Rightarrow> 't \<Rightarrow> 't processed_month list \<Rightarrow> 't processed_month list" where
  "set_month_processed y m st current_timestamp table =
     (if list_ex (\<lambda>row. month_key row = month_key_of y m) table
      then map (\<lambda>row. if month_key row = month_key_of y m
                       then row\<lparr>month_status := st, processed_at := current_timestamp\<rparr>
                       else row) table
      else table @ [\<lparr>month_key = month_key_of y m, year = y, month = m,
                      processed_at = current_timestamp, month_status = st\<rparr>])"

definition reset_processed_months :: "'t processed_month list \<Rightarrow> 't processed_month list" where
  "reset_processed_months table = []"

text \<open>
  The state a run works on: the table, a clock that counts the readings of
  \<^verbatim>\<open>CURRENT_TIMESTAMP\<close>, and the gold tables, which only the aggregate statement of
  \<^verbatim>\<open>process_month_gold\<close> touches. That statement is an opaque operation for each month. It
  runs on the connection of the run, so it is given the table \<^verbatim>\<open>ops.processed_months\<close> as it
  stands when the statement runs; it writes to the gold tables only.
\<close>

type_synonym 'g aggregate = "int \<Rightarrow> int \<Rightarrow> nat processed_month list \<Rightarrow> ('g, exn, int) operation"

record 'g ledger =
  processed_months :: "nat processed_month list"
  db_time :: nat
  gold :: 'g

text \<open>The command line: \<^verbatim>\<open>--year\<close>, \<^verbatim>\<open>--month\<close>, \<^verbatim>\<open>--reset\<close>, \<^verbatim>\<open>--dry-run\<close>.\<close>

record cli_args =
  arg_year :: "int option"
  arg_month :: "int option"
  arg_reset :: bool
  arg_dry_run :: bool

text \<open>An optional integer counts as true when it is given and not zero.\<close>

definition given :: "int option \<Rightarrow> bool" where
  "given a = (case a of None \<Rightarrow> False | Some i \<Rightarrow> i \<noteq> 0)"

text \<open>Lines 217-225: the months to work on.\<close>

definition unprocessed_months :: "cli_args \<Rightarrow> (int \<times> int) list \<Rightarrow> string list \<Rightarrow> (int \<times> int) list" where
  "unprocessed_months args distinct_months processed =
     (let all_months =
            (if given (arg_year args) \<and> given (arg_month args)
             then [(the (arg_year args), the (arg_month args))]
             else if given (arg_year args)
             then filter (\<lambda>(y, m). y = the (arg_year args)) distinct_months
             else distinct_months)
      in filter (\<lambda>(y, m). month_key_of y m \<notin> set processed) all_months)"

text \<open>
  Lines 243-249, over the months still to process. \<^verbatim>\<open>process_month_gold\<close> is the aggregate
  statement under \<^verbatim>\<open>@retry_with_backoff(max_attempts=3, base_delay=1.0)\<close>; an exception it
  raises leaves the loop.
\<close>

fun sweep ::
  "(real \<Rightarrow> nat \<Rightarrow> real \<Rightarrow> real) \<Rightarrow> (nat \<Rightarrow> real) \<Rightarrow> 'g aggregate \<Rightarrow> (int \<times> int) list \<Rightarrow> int \<Rightarrow> 'g ledger
     \<Rightarrow> (exn raised + int) \<times> 'g ledger" where
  "sweep delay rnd aggregate [] total_processed s = (Inr total_processed, s)"
| "sweep delay rnd aggregate ((y, m) # rest) total_processed s =
     (let s1 = s\<lparr>processed_months := set_month_processed y m ''in_progress'' (db_time s) (processed_months s),
                  db_time := Suc (db_time s)\<rparr>
      in case retry_with_backoff delay 3 1 rnd (aggregate y m (processed_months s1)) (gold s1) of
           (Inl e, g, _) \<Rightarrow> (Inl e, s1\<lparr>gold := g\<rparr>)
         | (Inr rows, g, _) \<Rightarrow>
             sweep delay rnd aggregate rest (total_processed + rows)
               (s1\<lparr>gold := g,
                   processed_months := set_month_processed y m ''completed'' (db_time s1) (processed_months s1),
                   db_time := Suc (db_time s1)\<rparr>))"

text \<open>
  \<^verbatim>\<open>main\<close> after the connection is made: it returns, or leaves through \<^verbatim>\<open>sys.exit(1)\<close> when
  an exception reaches its handler. \<open>distinct_months\<close> is what \<^verbatim>\<open>get_distinct_months\<close> reads
  from the silver layer.
\<close>

datatype exit = Returned | SystemExit int

definition main ::
  "cli_args \<Rightarrow> (real \<Rightarrow> nat \<Rightarrow> real \<Rightarrow> real) \<Rightarrow> (nat \<Rightarrow> real) \<Rightarrow> 'g aggregate \<Rightarrow> (int \<times> int) list \<Rightarrow> 'g ledger
     \<Rightarrow> exit \<times> 'g ledger" where
  "main args delay rnd aggregate distinct_months s =
     (if arg_reset args
      then (Returned, s\<lparr>processed_months := reset_processed_months (processed_months s)\<rparr>)
      else
        (let processed = get_processed_months (processed_months s);
             unprocessed = unprocessed_months args distinct_months processed
         in if unprocessed = [] then (Returned, s)
            else if arg_dry_run args then (Returned, s)
            else (case sweep delay rnd aggregate unprocessed 0 s of
                    (Inl e, s') \<Rightarrow> (SystemExit 1, s')
                  | (Inr total_processed, s') \<Rightarrow> (Returned, s'))))"

text \<open>Runs of the script one after another, each with its arguments and what the silver layer holds.\<close>

fun runs ::
  "(real \<Rightarrow> nat \<Rightarrow> real \<Rightarrow> real) \<Rightarrow> (nat \<Rightarrow> real) \<Rightarrow> 'g aggregate \<Rightarrow> (cli_args \<times> (int \<times> int) list) list \<Rightarrow> 'g ledger
     \<Rightarrow> 'g ledger" where
  "runs delay rnd aggregate [] s = s"
| "runs delay rnd aggregate ((args, distinct_months) # rest) s =
     runs delay rnd aggregate rest (snd (main args delay rnd aggregate distinct_months s))"

text \<open>The rows of a month key.\<close>

definition month_rows :: "string \<Rightarrow> 't processed_month list \<Rightarrow> 't processed_month list" where
  "month_rows k table = filter (\<lambda>row. month_key row = k) table"

text \<open>
  To see for which months the aggregate statement ran and what it found, the gold state is
  paired with a list to which each run of the statement adds its month and the statuses
  of the rows that the table holds for that month at that moment.
\<close>

definition traced :: "'g aggregate \<Rightarrow> ((int \<times> int \<times> string list) list \<times> 'g) aggregate" where
  "traced aggregate y m table =
     (\<lambda>(trace, g). case aggregate y m table g of
        (r, g') \<Rightarrow> (r, (trace @ [(y, m, map month_status (month_rows (month_key_of y m) table))], g')))"

text \<open>The runs of the aggregate statement for a month.\<close>

definition aggregate_runs :: "int \<times> int \<Rightarrow> ((int \<times> int \<times> string list) list \<times> 'g) ledger \<Rightarrow> nat" where
  "aggregate_runs u s = length (filter (\<lambda>(y, m, seen). (y, m) = u) (fst (gold s)))"

text \<open>A run of the statement that found its month in the table, with no status but \<open>in_progress\<close>.\<close>

definition marked :: "int \<times> int \<times> string list \<Rightarrow> bool" where
  "marked e = (case e of (y, m, seen) \<Rightarrow> seen \<noteq> [] \<and> list_all (\<lambda>st. st = ''in_progress'') seen)"

text \<open>
  A month statement for concrete runs: it raises for January 2011 and returns one row for
  every other month.
\<close>

definition january_fails :: "unit aggregate" where
  "january_fails y m table = (\<lambda>g. (if (y, m) = (2011, 1) then Inl ''OperationalError'' else Inr 1, g))"

definition no_args :: cli_args where
  "no_args = \<lparr>arg_year = None, arg_month = None, arg_reset = False, arg_dry_run = False\<rparr>"

text \<open>
  The ledger a run leaves when it is cut off in January 2011: the row of the month is
  \<open>in_progress\<close> and the aggregate statement has run three times for it.
\<close>

definition crashed_ledger :: "((int \<times> int \<times> string list) list \<times> unit) ledger" where
  "crashed_ledger =
     \<lparr>processed_months =
        [\<lparr>month_key = ''2011-01'', year = 2011, month = 1, processed_at = 0,
          month_status = ''in_progress''\<rparr>],
      db_time = 1,
      gold = ([(2011, 1, [''in_progress'']), (2011, 1, [''in_progress'']), (2011, 1, [''in_progress''])], ())\<rparr>"

definition fresh_ledger :: "((int \<times> int \<times> string list) list \<times> unit) ledger" where
  "fresh_ledger = \<lparr>processed_months = [], db_time = 0, gold = ([], ())\<rparr>"

section \<open>Properties of the retry wrapper\<close>

lemma after_Suc_right: "after func w (Suc n) = snd (func (after func w n))"
  by (induction n arbitrary: w) simp_all

lemma outcome_0: "outcome func w 0 = fst (func w)"
  by (simp add: outcome_def)

lemma outcome_Suc: "outcome func w (Suc n) = outcome func (snd (func w)) n"
  by (simp add: outcome_def)

lemma wrapper_loop_success:
  assumes "\<forall>i<k. isl (outcome func w i)" and "outcome func w k = Inr v"
    and "a + k < b" and "int b \<le> max_attempts"
  shows "wrapper_loop delay max_attempts base_delay rnd func [a..<b] last_exception w slept =
           (Inr v, after func w (Suc k),
            slept @ map (\<lambda>i. delay base_delay i (rnd i)) [a..<a + k])"
  using assms
proof (induction k arbitrary: a w last_exception slept)
  case 0
  then have "[a..<b] = a # [Suc a..<b]" by (simp add: upt_conv_Cons)
  moreover obtain r w' where f: "func w = (r, w')" by (cases "func w")
  moreover from 0 f have "r = Inr v" by (simp add: outcome_0)
  ultimately show ?case by simp
next
  case (Suc k)
  then have upt: "[a..<b] = a # [Suc a..<b]" by (simp add: upt_conv_Cons)
  obtain r w' where f: "func w = (r, w')" by (cases "func w")
  from Suc.prems(1) have "isl (outcome func w 0)" by blast
  with f obtain e where r: "r = Inl e" by (cases r) (simp_all add: outcome_0)
  have sl: "int a < max_attempts - 1" using Suc.prems(3,4) by linarith
  have p1: "\<forall>i<k. isl (outcome func w' i)"
    using Suc.prems(1) f by (auto simp: outcome_Suc dest: Suc_mono)
  have p2: "outcome func w' k = Inr v" using Suc.prems(2) f by (simp add: outcome_Suc)
  have p3: "Suc a + k < b" using Suc.prems(3) by simp
  have "wrapper_loop delay max_attempts base_delay rnd func [Suc a..<b] (Some e) w'
          (slept @ [delay base_delay a (rnd a)]) =
        (Inr v, after func w' (Suc k),
          (slept @ [delay base_delay a (rnd a)]) @ map (\<lambda>i. delay base_delay i (rnd i)) [Suc a..<Suc a + k])"
    by (rule Suc.IH [OF p1 p2 p3 Suc.prems(4)])
  moreover have "[a..<a + Suc k] = a # [Suc a..<Suc a + k]" by (simp add: upt_conv_Cons)
  ultimately show ?case using upt f r sl by simp
qed

lemma wrapper_loop_exhausted:
  assumes "\<forall>i<n. isl (outcome func w i)" and "max_attempts = int (a + n)"
  shows "wrapper_loop delay max_attempts base_delay rnd func [a..<a + n] last_exception w slept =
           (Inl (case n of 0 \<Rightarrow> (case last_exception of None \<Rightarrow> TypeError_raise_None | Some e \<Rightarrow> Raised e)
                 | Suc m \<Rightarrow> Raised (projl (outcome func w m))),
            after func w n,
            slept @ map (\<lambda>i. delay base_delay i (rnd i)) [a..<a + n - 1])"
  using assms
proof (induction n arbitrary: a w last_exception slept)
  case 0
  then show ?case by simp
next
  case (Suc n)
  have upt: "[a..<a + Suc n] = a # [Suc a..<Suc a + n]" by (simp add: upt_conv_Cons)
  obtain r w' where f: "func w = (r, w')" by (cases "func w")
  from Suc.prems(1) have "isl (outcome func w 0)" by blast
  with f obtain e where r: "r = Inl e" by (cases r) (simp_all add: outcome_0)
  have p1: "\<forall>i<n. isl (outcome func w' i)"
    using Suc.prems(1) f by (auto simp: outcome_Suc dest: Suc_mono)
  have p2: "max_attempts = int (Suc a + n)" using Suc.prems(2) by simp
  note IH = Suc.IH [OF p1 p2]
  show ?case
  proof (cases n)
    case 0
    then have "\<not> int a < max_attempts - 1" using Suc.prems(2) by simp
    with 0 upt f r show ?thesis by (simp add: outcome_0)
  next
    case (Suc m)
    then have sl: "int a < max_attempts - 1" using Suc.prems(2) by simp
    have "[a..<a + Suc n - 1] = a # [Suc a..<Suc a + n - 1]"
      using Suc by (simp add: upt_conv_Cons)
    with Suc upt f r sl IH show ?thesis by (simp add: outcome_Suc)
  qed
qed


lemma after_counting: "after (counting func) (c, w) n = (c + n, after func w n)"
  by (induction n arbitrary: c w) (simp_all add: counting_def split: prod.splits)

lemma outcome_counting: "outcome (counting func) (c, w) n = outcome func w n"
  by (simp add: outcome_def after_counting) (simp add: counting_def split: prod.splits)

lemma retry_success:
  assumes "\<forall>i<k. isl (outcome func w i)" and "outcome func w k = Inr v" and "int k < max_attempts"
  shows "retry_with_backoff delay max_attempts base_delay rnd func w =
           (Inr v, after func w (Suc k), delays delay base_delay rnd k)"
proof -
  have "0 + k < nat max_attempts" and "int (nat max_attempts) \<le> max_attempts"
    using assms(3) by simp_all
  from wrapper_loop_success [OF assms(1,2) this]
  show ?thesis by (simp add: retry_with_backoff_def delays_def)
qed

lemma retry_exhausted:
  assumes "\<forall>i<nat max_attempts. outcome func w i = Inl (errs i)" and "1 \<le> max_attempts"
  shows "retry_with_backoff delay max_attempts base_delay rnd func w =
           (Inl (Raised (errs (nat max_attempts - 1))), after func w (nat max_attempts),
            delays delay base_delay rnd (nat max_attempts - 1))"
proof -
  obtain m where m: "nat max_attempts = Suc m" using assms(2) by (cases "nat max_attempts") simp_all
  have a: "\<forall>i<nat max_attempts. isl (outcome func w i)" using assms(1) by simp
  have b: "max_attempts = int (0 + nat max_attempts)" using assms(2) by simp
  have "outcome func w m = Inl (errs m)" using assms(1) m by simp
  with wrapper_loop_exhausted [OF a b, where base_delay = base_delay and rnd = rnd and delay = delay
      and last_exception = None and slept = "[]"] m
  show ?thesis by (simp add: retry_with_backoff_def delays_def)
qed

text \<open>
  Claim C6. For every operation and every \<open>max_attempts \<ge> 1\<close>: an operation that raises on
  its first \<open>k\<close> invocations and returns \<open>v\<close> on invocation \<open>k + 1 \<le> max_attempts\<close> makes
  the wrapper return \<open>v\<close> after exactly \<open>k + 1\<close> invocations; an operation that raises on
  every invocation is invoked exactly \<open>max_attempts\<close> times and the wrapper raises the
  exception of the last invocation itself; with \<open>max_attempts = 1\<close> the first failure is
  raised at once, after one invocation and no sleep.
\<close>

theorem retry_with_backoff_attempts:
  assumes "1 \<le> max_attempts"
  shows "((\<forall>i<k. isl (outcome func w i)) \<and> outcome func w k = Inr v \<and> int k < max_attempts \<longrightarrow>
            fst (retry_with_backoff delay max_attempts base_delay rnd (counting func) (0, w)) = Inr v \<and>
            fst (fst (snd (retry_with_backoff delay max_attempts base_delay rnd (counting func) (0, w)))) = Suc k)
       \<and> ((\<forall>i<nat max_attempts. outcome func w i = Inl (errs i)) \<longrightarrow>
            fst (retry_with_backoff delay max_attempts base_delay rnd (counting func) (0, w)) =
              Inl (Raised (errs (nat max_attempts - 1))) \<and>
            fst (fst (snd (retry_with_backoff delay max_attempts base_delay rnd (counting func) (0, w)))) =
              nat max_attempts)
       \<and> (max_attempts = 1 \<and> fst (func w) = Inl e \<longrightarrow>
            retry_with_backoff delay max_attempts base_delay rnd (counting func) (0, w) =
              (Inl (Raised e), (1, snd (func w)), []))"
proof (intro conjI impI)
  assume h: "(\<forall>i<k. isl (outcome func w i)) \<and> outcome func w k = Inr v \<and> int k < max_attempts"
  then have "retry_with_backoff delay max_attempts base_delay rnd (counting func) (0, w) =
      (Inr v, after (counting func) (0, w) (Suc k), delays delay base_delay rnd k)"
    by (intro retry_success) (simp_all add: outcome_counting)
  then show "fst (retry_with_backoff delay max_attempts base_delay rnd (counting func) (0, w)) = Inr v"
    and "fst (fst (snd (retry_with_backoff delay max_attempts base_delay rnd (counting func) (0, w)))) = Suc k"
    by (simp_all add: after_counting del: after.simps)
next
  assume h: "\<forall>i<nat max_attempts. outcome func w i = Inl (errs i)"
  then have "retry_with_backoff delay max_attempts base_delay rnd (counting func) (0, w) =
      (Inl (Raised (errs (nat max_attempts - 1))), after (counting func) (0, w) (nat max_attempts),
       delays delay base_delay rnd (nat max_attempts - 1))"
    using assms by (intro retry_exhausted) (simp_all add: outcome_counting)
  then show "fst (retry_with_backoff delay max_attempts base_delay rnd (counting func) (0, w)) =
      Inl (Raised (errs (nat max_attempts - 1)))"
    and "fst (fst (snd (retry_with_backoff delay max_attempts base_delay rnd (counting func) (0, w)))) =
      nat max_attempts"
    by (simp_all add: after_counting del: after.simps)
next
  assume h: "max_attempts = 1 \<and> fst (func w) = Inl e"
  then show "retry_with_backoff delay max_attempts base_delay rnd (counting func) (0, w) =
      (Inl (Raised e), (1, snd (func w)), [])"
    by (cases "func w") (simp add: retry_with_backoff_def counting_def)
qed

lemma outcome_flaky: "outcome (flaky_function k) c i = (if Suc (c + i) < k then Inl ''Simulated failure'' else Inr ''success'')"
  by (induction i arbitrary: c) (simp_all add: outcome_def flaky_function_def)

lemma outcome_always_fail: "outcome always_fail_function c i = Inl ''Always fails''"
  by (induction i arbitrary: c) (simp_all add: outcome_def always_fail_function_def)

theorem retry_with_backoff_attempts_witness:
  "(1::int) \<le> 3
   \<and> isl (outcome (flaky_function 3) 0 0) \<and> isl (outcome (flaky_function 3) 0 1)
   \<and> outcome (flaky_function 3) 0 2 = Inr ''success''
   \<and> int 2 < 3
   \<and> fst (retry_with_backoff exact_delay 3 (1/10) (\<lambda>i. 1/2) (counting (flaky_function 3)) (0, 0)) = Inr ''success''
   \<and> fst (fst (snd (retry_with_backoff exact_delay 3 (1/10) (\<lambda>i. 1/2) (counting (flaky_function 3)) (0, 0)))) = 3
   \<and> outcome always_fail_function 0 0 = Inl ''Always fails''
   \<and> outcome always_fail_function 0 1 = Inl ''Always fails''
   \<and> outcome always_fail_function 0 2 = Inl ''Always fails''
   \<and> fst (retry_with_backoff exact_delay 3 (1/10) (\<lambda>i. 1/2) (counting always_fail_function) (0, 0)) =
       Inl (Raised ''Always fails'')
   \<and> fst (fst (snd (retry_with_backoff exact_delay 3 (1/10) (\<lambda>i. 1/2) (counting always_fail_function) (0, 0)))) = 3
   \<and> fst (always_fail_function 0) = Inl ''Always fails''
   \<and> retry_with_backoff exact_delay 1 (1/10) (\<lambda>i. 1/2) (counting always_fail_function) (0, 0) =
       (Inl (Raised ''Always fails''), (1, snd (always_fail_function 0)), [])"
proof -
  have h1: "(1::int) \<le> 3" and h1': "(1::int) \<le> 1" by simp_all
  have h2: "(\<forall>i<2. isl (outcome (flaky_function 3) 0 i)) \<and> outcome (flaky_function 3) 0 2 = Inr ''success'' \<and> int 2 < 3"
    by (simp add: outcome_flaky)
  have h3: "\<forall>i<nat 3. outcome always_fail_function 0 i = Inl ''Always fails''"
    by (simp add: outcome_always_fail)
  have h4: "(1::int) = 1 \<and> fst (always_fail_function 0) = Inl ''Always fails''"
    by (simp add: always_fail_function_def)
  from retry_with_backoff_attempts [OF h1, where k = 2 and func = "flaky_function 3" and w = 0
      and v = "''success''" and base_delay = "1/10" and rnd = "\<lambda>i. 1/2" and delay = exact_delay] h2
  have a: "fst (retry_with_backoff exact_delay 3 (1/10) (\<lambda>i. 1/2) (counting (flaky_function 3)) (0, 0)) = Inr ''success''
     \<and> fst (fst (snd (retry_with_backoff exact_delay 3 (1/10) (\<lambda>i. 1/2) (counting (flaky_function 3)) (0, 0)))) = 3"
    by simp
  from retry_with_backoff_attempts [OF h1, where func = always_fail_function and w = 0
      and errs = "\<lambda>i. ''Always fails''" and base_delay = "1/10" and rnd = "\<lambda>i. 1/2" and delay = exact_delay] h3
  have b: "fst (retry_with_backoff exact_delay 3 (1/10) (\<lambda>i. 1/2) (counting always_fail_function) (0, 0)) =
       Inl (Raised ''Always fails'')
   \<and> fst (fst (snd (retry_with_backoff exact_delay 3 (1/10) (\<lambda>i. 1/2) (counting always_fail_function) (0, 0)))) = 3"
    by simp
  from retry_with_backoff_attempts [OF h1', where func = always_fail_function and w = 0
      and e = "''Always fails''" and base_delay = "1/10" and rnd = "\<lambda>i. 1/2" and delay = exact_delay] h4
  have c: "retry_with_backoff exact_delay 1 (1/10) (\<lambda>i. 1/2) (counting always_fail_function) (0, 0) =
       (Inl (Raised ''Always fails''), (1, snd (always_fail_function 0)), [])"
    by simp
  from h2 have h2': "isl (outcome (flaky_function 3) 0 0) \<and> isl (outcome (flaky_function 3) 0 1)"
    by simp
  have h3': "outcome always_fail_function 0 0 = Inl ''Always fails''
      \<and> outcome always_fail_function 0 1 = Inl ''Always fails''
      \<and> outcome always_fail_function 0 2 = Inl ''Always fails''"
    by (simp add: outcome_always_fail)
  from h1 h2 h2' h3' h4 a b c show ?thesis by blast
qed


lemma retry_no_attempts:
  "max_attempts \<le> 0 \<Longrightarrow>
     retry_with_backoff delay max_attempts base_delay rnd func w = (Inl TypeError_raise_None, w, [])"
  by (simp add: retry_with_backoff_def)

text \<open>
  The calls of \<^verbatim>\<open>time.sleep\<close>: one after each failed attempt that is not the last, with the
  value of the delay expression of that attempt, and none after a success or after the
  last failed attempt.
\<close>

lemma retry_all_fail_slept:
  assumes "\<forall>i<nat max_attempts. isl (outcome func w i)"
  shows "snd (snd (retry_with_backoff delay max_attempts base_delay rnd func w)) =
           delays delay base_delay rnd (nat max_attempts - 1)"
proof (cases "1 \<le> max_attempts")
  case True
  have "\<forall>i<nat max_attempts. outcome func w i = Inl (projl (outcome func w i))"
    using assms by simp
  from retry_exhausted [OF this True] show ?thesis by simp
next
  case False
  then show ?thesis by (simp add: retry_no_attempts delays_def)
qed

lemma retry_success_slept:
  assumes "\<forall>i<k. isl (outcome func w i)" and "outcome func w k = Inr v" and "int k < max_attempts"
  shows "snd (snd (retry_with_backoff delay max_attempts base_delay rnd func w)) =
           delays delay base_delay rnd k"
  using retry_success [OF assms] by simp

section \<open>Properties of the circuit breaker\<close>

lemma call_closed_success:
  "state self = CLOSED \<Longrightarrow> func w = (Inr v, w') \<Longrightarrow> call self now later func w = (Inr v, self, w')"
  by (simp add: call_def admit_def invoke_def)

lemma call_closed_failure:
  "state self = CLOSED \<Longrightarrow> func w = (Inl e, w') \<Longrightarrow>
     call self now later func w =
       (Inl (Failed e),
        self\<lparr>failure_count := failure_count self + 1, last_failure_time := Some later,
             state := (if failure_count self + 1 \<ge> failure_threshold self then OPEN else CLOSED)\<rparr>,
        w')"
  by (simp add: call_def admit_def invoke_def Let_def)

lemma calls_stay_closed:
  "state self = CLOSED \<Longrightarrow> failure_count self + int (failures rs) < failure_threshold self \<Longrightarrow>
     state (fst (calls self rs w)) = CLOSED
     \<and> failure_count (fst (calls self rs w)) = failure_count self + int (failures rs)
     \<and> failure_threshold (fst (calls self rs w)) = failure_threshold self"
proof (induction rs arbitrary: self w)
  case Nil
  then show ?case by (simp add: failures_def)
next
  case (Cons x rs)
  obtain now later r where x: "x = (now, later, r)" by (cases x)
  show ?case
  proof (cases r)
    case (Inl e)
    let ?s = "self\<lparr>failure_count := failure_count self + 1, last_failure_time := Some later,
             state := (if failure_count self + 1 \<ge> failure_threshold self then OPEN else CLOSED)\<rparr>"
    have c: "call self now later (service r) w = (Inl (Failed e), ?s, Suc w)"
      using Cons.prems(1) Inl by (intro call_closed_failure) (simp_all add: service_def)
    have lt: "failure_count self + 1 + int (failures rs) < failure_threshold self"
      using Cons.prems(2) x Inl by (simp add: failures_def)
    then have "state ?s = CLOSED" using zle_iff_zadd by auto
    moreover have "failure_count ?s + int (failures rs) < failure_threshold ?s" using lt by simp
    ultimately have "state (fst (calls ?s rs (Suc w))) = CLOSED
     \<and> failure_count (fst (calls ?s rs (Suc w))) = failure_count ?s + int (failures rs)
     \<and> failure_threshold (fst (calls ?s rs (Suc w))) = failure_threshold ?s"
      by (rule Cons.IH)
    then show ?thesis using x Inl c by (simp add: failures_def)
  next
    case (Inr v)
    have c: "call self now later (service r) w = (Inr v, self, Suc w)"
      using Cons.prems(1) Inr by (intro call_closed_success) (simp_all add: service_def)
    have "failure_count self + int (failures rs) < failure_threshold self"
      using Cons.prems(2) x Inr by (simp add: failures_def)
    from Cons.IH [OF Cons.prems(1) this, of "Suc w"] show ?thesis
      using x Inr c by (simp add: failures_def)
  qed
qed

lemma calls_append: "calls self (rs @ rs') w = (case calls self rs w of (self', w') \<Rightarrow> calls self' rs' w')"
  by (induction rs arbitrary: self w) (auto split: prod.splits)

text \<open>
  Claim C2, as amended. In state \<open>CLOSED\<close> a successful call leaves the breaker as it is: the
  failure counter keeps its value (only a successful trial in \<open>HALF_OPEN\<close> resets it). A
  failing call adds one to the counter and opens the breaker exactly when the counter
  reaches \<open>failure_threshold\<close>. Hence over any sequence of calls, successes among them or
  not, the breaker stays closed while the failures so far are below the threshold, with the
  counter equal to their number, and the failure that brings that number to the threshold
  opens it.
\<close>

theorem circuit_breaker_counts_all_failures:
  assumes "state self = CLOSED"
  shows "(func w = (Inr v, w') \<longrightarrow> call self now later func w = (Inr v, self, w'))
       \<and> (func w = (Inl e, w') \<longrightarrow>
            call self now later func w =
              (Inl (Failed e),
               self\<lparr>failure_count := failure_count self + 1, last_failure_time := Some later,
                    state := (if failure_count self + 1 \<ge> failure_threshold self then OPEN else CLOSED)\<rparr>,
               w'))
       \<and> (failure_count self + int (failures rs) < failure_threshold self \<longrightarrow>
            state (fst (calls self rs n)) = CLOSED \<and>
            failure_count (fst (calls self rs n)) = failure_count self + int (failures rs))
       \<and> (failure_count self + int (failures rs) + 1 = failure_threshold self \<longrightarrow>
            state (fst (calls self (rs @ [(t, t', Inl msg)]) n)) = OPEN)"
proof (intro conjI impI)
  assume "func w = (Inr v, w')"
  with assms show "call self now later func w = (Inr v, self, w')" by (rule call_closed_success)
next
  assume "func w = (Inl e, w')"
  with assms show "call self now later func w =
              (Inl (Failed e),
               self\<lparr>failure_count := failure_count self + 1, last_failure_time := Some later,
                    state := (if failure_count self + 1 \<ge> failure_threshold self then OPEN else CLOSED)\<rparr>,
               w')" by (rule call_closed_failure)
next
  assume "failure_count self + int (failures rs) < failure_threshold self"
  with assms calls_stay_closed [of self rs n]
  show "state (fst (calls self rs n)) = CLOSED"
    and "failure_count (fst (calls self rs n)) = failure_count self + int (failures rs)"
    by simp_all
next
  assume h: "failure_count self + int (failures rs) + 1 = failure_threshold self"
  then have "failure_count self + int (failures rs) < failure_threshold self" by simp
  from calls_stay_closed [OF assms this, of n]
  obtain s' n' where c: "calls self rs n = (s', n')" and s: "state s' = CLOSED"
    and f: "failure_count s' = failure_count self + int (failures rs)"
    and th: "failure_threshold s' = failure_threshold self"
    by (cases "calls self rs n") simp
  have "call s' t t' (service (Inl msg)) n' =
      (Inl (Failed msg),
       s'\<lparr>failure_count := failure_count s' + 1, last_failure_time := Some t',
           state := (if failure_count s' + 1 \<ge> failure_threshold s' then OPEN else CLOSED)\<rparr>,
       Suc n')"
    using s by (intro call_closed_failure) (simp_all add: service_def)
  then show "state (fst (calls self (rs @ [(t, t', Inl msg)]) n)) = OPEN"
    using c f th h by (simp add: calls_append)
qed

text \<open>
  Claim C2 as stated fails: with threshold 2, after one failure (breaker closed, counter 1)
  a successful call leaves the counter at 1, and the next failure, not consecutive to the
  first, opens the breaker.
\<close>

theorem circuit_breaker_success_resets_counterexample:
  "state (fst (calls (CircuitBreaker 2 5) [(0, 0, Inl ''Service unavailable'')] 0)) = CLOSED
   \<and> failure_count (fst (calls (CircuitBreaker 2 5)
        [(0, 0, Inl ''Service unavailable''), (1, 1, Inr ''ok'')] 0)) = 1
   \<and> state (fst (calls (CircuitBreaker 2 5)
        [(0, 0, Inl ''Service unavailable''), (1, 1, Inr ''ok''), (2, 2, Inl ''Service unavailable'')] 0)) = OPEN"
  by (simp add: CircuitBreaker_def call_def admit_def invoke_def service_def)

theorem circuit_breaker_counts_all_failures_witness:
  "state (CircuitBreaker 2 5) = CLOSED
   \<and> call (CircuitBreaker 2 5) 1 1 (service (Inr ''ok'')) 0 = (Inr ''ok'', CircuitBreaker 2 5, 1)
   \<and> call (CircuitBreaker 2 5) 1 1 (service (Inl ''down'')) 0 =
       (Inl (Failed ''down''),
        \<lparr>failure_threshold = 2, timeout = 5, failure_count = 1, last_failure_time = Some 1,
         state = CLOSED\<rparr>, 1)
   \<and> failure_count (fst (calls (CircuitBreaker 2 5) [(0, 0, Inl ''down''), (1, 1, Inr ''ok'')] 0)) = 1
   \<and> state (fst (calls (CircuitBreaker 2 5)
        ([(0, 0, Inl ''down''), (1, 1, Inr ''ok'')] @ [(2, 2, Inl ''down'')]) 0)) = OPEN"
proof -
  have h: "state (CircuitBreaker 2 5) = CLOSED" by (simp add: CircuitBreaker_def)
  have f: "failures [(0, 0, Inl ''down''), (1, 1, Inr ''ok'')] = 1" by (simp add: failures_def)
  have a: "service (Inr ''ok'') 0 = (Inr ''ok'', 1)" "service (Inl ''down'') 0 = (Inl ''down'', 1)"
    by (simp_all add: service_def)
  have fc: "failure_count (CircuitBreaker 2 5) = 0" "failure_threshold (CircuitBreaker 2 5) = 2"
    by (simp_all add: CircuitBreaker_def)
  from circuit_breaker_counts_all_failures [OF h, where func = "service (Inr ''ok'')" and w = 0
      and v = "''ok''" and w' = 1 and now = 1 and later = 1
      and rs = "[(0, 0, Inl ''down''), (1, 1, Inr ''ok'')]" and n = 0 and t = 2 and t' = 2 and msg = "''down''"]
  have 1: "call (CircuitBreaker 2 5) 1 1 (service (Inr ''ok'')) 0 = (Inr ''ok'', CircuitBreaker 2 5, 1)"
    and 2: "failure_count (fst (calls (CircuitBreaker 2 5) [(0, 0, Inl ''down''), (1, 1, Inr ''ok'')] 0)) = 1"
    and 3: "state (fst (calls (CircuitBreaker 2 5)
        ([(0, 0, Inl ''down''), (1, 1, Inr ''ok'')] @ [(2, 2, Inl ''down'')]) 0)) = OPEN"
    using a f fc by simp_all
  from circuit_breaker_counts_all_failures [OF h, where func = "service (Inl ''down'')" and w = 0
      and e = "''down''" and w' = 1 and now = 1 and later = 1]
  have 4: "call (CircuitBreaker 2 5) 1 1 (service (Inl ''down'')) 0 =
       (Inl (Failed ''down''),
        \<lparr>failure_threshold = 2, timeout = 5, failure_count = 1, last_failure_time = Some 1,
         state = CLOSED\<rparr>, 1)"
    using a by (simp add: CircuitBreaker_def)
  from h 1 2 3 4 show ?thesis by simp
qed

text \<open>
  A breaker that is not closed has a failure time: the handler records the time before it
  opens the breaker, and nothing erases it.
\<close>

lemma call_open_has_time:
  "(state self \<noteq> CLOSED \<longrightarrow> last_failure_time self \<noteq> None) \<Longrightarrow>
   (state (fst (snd (call self now later func w))) \<noteq> CLOSED \<longrightarrow>
      last_failure_time (fst (snd (call self now later func w))) \<noteq> None)"
  by (auto simp: call_def admit_def invoke_def Let_def split: prod.splits sum.splits option.splits if_splits)

text \<open>
  Claim C7. While the breaker is \<open>OPEN\<close>, a call made when no more than \<open>timeout\<close> has
  passed since the last failure raises the circuit-open error, leaves the breaker as it is
  and does not invoke the operation (the world is unchanged). A call made later than that
  moves the breaker to \<open>HALF_OPEN\<close> and invokes the operation once; if this trial returns,
  the breaker is \<open>CLOSED\<close> with the failure counter 0.
\<close>

theorem circuit_breaker_open_cooldown:
  fixes func :: "('w, 'e, 'a) operation"
  assumes "state self = OPEN" and "last_failure_time self = Some t"
  shows "(now - t \<le> timeout self \<longrightarrow> call self now later func w = (Inl CircuitOpen, self, w))
       \<and> (now - t > timeout self \<longrightarrow>
            admit self now = (Inr (self\<lparr>state := HALF_OPEN\<rparr>) :: 'e breaker_error + circuit_breaker) \<and>
            call self now later func w = invoke (self\<lparr>state := HALF_OPEN\<rparr>) later func w \<and>
            snd (snd (call self now later func w)) = snd (func w))
       \<and> (now - t > timeout self \<and> func w = (Inr v, w') \<longrightarrow>
            call self now later func w = (Inr v, self\<lparr>state := CLOSED, failure_count := 0\<rparr>, w'))"
  using assms by (auto simp: call_def admit_def invoke_def Let_def split: prod.splits sum.splits)

theorem circuit_breaker_open_cooldown_witness:
  "calls (CircuitBreaker 2 5) [(0, 0, Inl ''Service unavailable''), (1, 1, Inl ''Service unavailable'')] 0 =
     (\<lparr>failure_threshold = 2, timeout = 5, failure_count = 2, last_failure_time = Some 1, state = OPEN\<rparr>, 2)
   \<and> call \<lparr>failure_threshold = 2, timeout = 5, failure_count = 2, last_failure_time = Some 1, state = OPEN\<rparr>
        3 3 (service (Inr ''ok'')) 2 =
       (Inl CircuitOpen,
        \<lparr>failure_threshold = 2, timeout = 5, failure_count = 2, last_failure_time = Some 1, state = OPEN\<rparr>, 2)
   \<and> admit \<lparr>failure_threshold = 2, timeout = 5, failure_count = 2, last_failure_time = Some 1, state = OPEN\<rparr> 7 =
       (Inr \<lparr>failure_threshold = 2, timeout = 5, failure_count = 2, last_failure_time = Some 1,
            state = HALF_OPEN\<rparr> :: string breaker_error + circuit_breaker)
   \<and> call \<lparr>failure_threshold = 2, timeout = 5, failure_count = 2, last_failure_time = Some 1, state = OPEN\<rparr>
        7 7 (service (Inr ''ok'')) 2 =
       (Inr ''ok'',
        \<lparr>failure_threshold = 2, timeout = 5, failure_count = 0, last_failure_time = Some 1, state = CLOSED\<rparr>, 3)"
proof -
  let ?b = "\<lparr>failure_threshold = 2, timeout = 5, failure_count = 2, last_failure_time = Some 1, state = OPEN\<rparr>"
  have r: "calls (CircuitBreaker 2 5) [(0, 0, Inl ''Service unavailable''), (1, 1, Inl ''Service unavailable'')] 0 = (?b, 2)"
    by (simp add: CircuitBreaker_def call_def admit_def invoke_def service_def)
  have h1: "state ?b = OPEN" and h2: "last_failure_time ?b = Some 1" by simp_all
  have s: "service (Inr ''ok'') 2 = (Inr ''ok'', 3)" by (simp add: service_def)
  from circuit_breaker_open_cooldown [OF h1 h2, where now = 3 and later = 3
      and func = "service (Inr ''ok'')" and w = 2]
  have a: "call ?b 3 3 (service (Inr ''ok'')) 2 = (Inl CircuitOpen, ?b, 2)" by simp
  from circuit_breaker_open_cooldown [OF h1 h2, where now = 7 and later = 7
      and func = "service (Inr ''ok'')" and w = 2 and v = "''ok''" and w' = 3] s
  have b: "admit ?b 7 = (Inr (?b\<lparr>state := HALF_OPEN\<rparr>) :: string breaker_error + circuit_breaker)"
    and c: "call ?b 7 7 (service (Inr ''ok'')) 2 = (Inr ''ok'', ?b\<lparr>state := CLOSED, failure_count := 0\<rparr>, 3)"
    by (simp_all add: invoke_def)
  from r a b c show ?thesis by simp
qed


section \<open>Properties of the tiered logger and of log recovery\<close>

lemmas result_defs = return_def raise_def and_then_def try_except_def print_def print_stderr_def

lemma log_to_database_up:
  "conn_usable s \<Longrightarrow> log_to_database e s =
     return True (s\<lparr>pipeline_logs := pipeline_logs s @ uncommitted s @ [e], uncommitted := [],
                     stdout := stdout s @ [Database_log (message e)]\<rparr>)"
  by (simp add: log_to_database_def execute_insert_def commit_def result_defs)

lemma log_to_database_down:
  "\<not> conn_usable s \<Longrightarrow> log_to_database e s =
     return False (s\<lparr>stdout := stdout s @ [Database_logging_failed ''InterfaceError: connection already closed'']\<rparr>)"
  by (simp add: log_to_database_def execute_insert_def commit_def result_defs)

lemma log_to_file_ok:
  "dumps e = Inr line \<Longrightarrow> fallback_writable s \<Longrightarrow> log_to_file dumps e s =
     return True (s\<lparr>fallback_log := Some (lines_of (fallback_log s) @ [line]),
                     stdout := stdout s @ [File_log_fallback (message e)]\<rparr>)"
  by (simp add: log_to_file_def append_fallback_def result_defs)

lemma log_to_file_unserialisable:
  "dumps e = Inl x \<Longrightarrow> log_to_file dumps e s =
     return False (s\<lparr>stdout := stdout s @ [File_logging_failed x]\<rparr>)"
  by (simp add: log_to_file_def append_fallback_def result_defs)

lemma log_to_file_unwritable:
  "dumps e = Inr line \<Longrightarrow> \<not> fallback_writable s \<Longrightarrow> log_to_file dumps e s =
     return False (s\<lparr>stdout := stdout s @ [File_logging_failed ''OSError'']\<rparr>)"
  by (simp add: log_to_file_def append_fallback_def result_defs)

lemma log_to_critical_file_ok:
  "critical_writable s \<Longrightarrow> log_to_critical_file e msg s =
     return () (s\<lparr>critical_log := Some (lines_of (critical_log s) @ [(timestamp e, level e, msg)]),
                   stdout := stdout s @ [Critical_log_fallback msg]\<rparr>)"
  by (simp add: log_to_critical_file_def append_critical_def result_defs)

lemma log_to_critical_file_unwritable:
  "\<not> critical_writable s \<Longrightarrow> log_to_critical_file e msg s =
     return () (s\<lparr>stdout := stdout s @ [All_logging_failed ''OSError''],
                   stderr := stderr s @ [msg]\<rparr>)"
  by (simp add: log_to_critical_file_def append_critical_def result_defs)

text \<open>
  The body of \<^verbatim>\<open>log\<close>, once the arguments are bound, returns without raising for every
  level, message and metadata and every combination of failing sinks. It tries the database
  first and stops there when the insert and commit succeed; otherwise the fallback file,
  and stops there when the record serialises and the write succeeds; otherwise the critical
  file; and when that write fails too it prints the message to standard error. The printed
  lines give the order of the attempts, and a sink that was not reached or that failed is
  left unchanged. The line written to the fallback file is the serialisation of the record
  built for the call, which carries the logger's run and pipeline identity and the
  timestamp, level and message of the call.
\<close>

lemma log_body_never_raises:
  "\<exists>s'. log_body dumps self now lvl msg meta s = Inr ((), s')
     \<and> (conn_usable s \<longrightarrow>
          s' = s\<lparr>pipeline_logs := pipeline_logs s @ uncommitted s @ [make_log_entry self now lvl msg meta],
                 uncommitted := [], stdout := stdout s @ [Database_log msg]\<rparr>)
     \<and> (\<not> conn_usable s \<and> fallback_writable s \<longrightarrow>
          (\<forall>line. dumps (make_log_entry self now lvl msg meta) = Inr line \<longrightarrow>
             s' = s\<lparr>fallback_log := Some (lines_of (fallback_log s) @ [line]),
                    stdout := stdout s @ [Database_logging_failed ''InterfaceError: connection already closed'',
                                          File_log_fallback msg]\<rparr>))
     \<and> (\<not> conn_usable s \<and> (\<not> fallback_writable s \<or> isl (dumps (make_log_entry self now lvl msg meta)))
          \<and> critical_writable s \<longrightarrow>
          s' = s\<lparr>critical_log := Some (lines_of (critical_log s) @ [(now, lvl, msg)]),
                 stdout := stdout s @ [Database_logging_failed ''InterfaceError: connection already closed'',
                                       File_logging_failed (file_error dumps (make_log_entry self now lvl msg meta)),
                                       Critical_log_fallback msg]\<rparr>)
     \<and> (\<not> conn_usable s \<and> (\<not> fallback_writable s \<or> isl (dumps (make_log_entry self now lvl msg meta)))
          \<and> \<not> critical_writable s \<longrightarrow>
          s' = s\<lparr>stdout := stdout s @ [Database_logging_failed ''InterfaceError: connection already closed'',
                                       File_logging_failed (file_error dumps (make_log_entry self now lvl msg meta)),
                                       All_logging_failed ''OSError''],
                 stderr := stderr s @ [msg]\<rparr>)
     \<and> log_run_id (make_log_entry self now lvl msg meta) = rl_run_id self
     \<and> log_pipeline_name (make_log_entry self now lvl msg meta) = rl_pipeline_name self
     \<and> timestamp (make_log_entry self now lvl msg meta) = now
     \<and> level (make_log_entry self now lvl msg meta) = lvl
     \<and> message (make_log_entry self now lvl msg meta) = msg"
proof -
  let ?e = "make_log_entry self now lvl msg meta"
  have m: "message ?e = msg" "timestamp ?e = now" "level ?e = lvl"
    "log_run_id ?e = rl_run_id self" "log_pipeline_name ?e = rl_pipeline_name self"
    by (simp_all add: make_log_entry_def)
  show ?thesis
  proof (cases "conn_usable s")
    case True
    then show ?thesis
      using m by (simp add: log_body_def log_to_database_up) (simp add: return_def and_then_def)
  next
    case db: False
    show ?thesis
    proof (cases "dumps ?e")
      case (Inr line)
      show ?thesis
      proof (cases "fallback_writable s")
        case True
        with db Inr m show ?thesis
          by (simp add: log_body_def log_to_database_down)
             (simp add: return_def and_then_def log_to_file_ok [unfolded return_def])
      next
        case fw: False
        show ?thesis
        proof (cases "critical_writable s")
          case True
          with db Inr fw m show ?thesis
            by (simp add: log_body_def log_to_database_down file_error_def)
               (simp add: return_def and_then_def log_to_file_unwritable [unfolded return_def]
                  log_to_critical_file_ok [unfolded return_def])
        next
          case False
          with db Inr fw m show ?thesis
            by (simp add: log_body_def log_to_database_down file_error_def)
               (simp add: return_def and_then_def log_to_file_unwritable [unfolded return_def]
                  log_to_critical_file_unwritable [unfolded return_def])
        qed
      qed
    next
      case (Inl x)
      show ?thesis
      proof (cases "critical_writable s")
        case True
        with db Inl m show ?thesis
          by (simp add: log_body_def log_to_database_down file_error_def)
             (simp add: return_def and_then_def log_to_file_unserialisable [unfolded return_def]
                log_to_critical_file_ok [unfolded return_def])
      next
        case False
        with db Inl m show ?thesis
          by (simp add: log_body_def log_to_database_down file_error_def)
             (simp add: return_def and_then_def log_to_file_unserialisable [unfolded return_def]
                log_to_critical_file_unwritable [unfolded return_def])
      qed
    qed
  qed
qed

lemma robust_log_bound:
  "bind_log args kwargs = Inr (lvl, msg, meta) \<Longrightarrow>
     robust_log dumps self now args kwargs s = log_body dumps self now lvl msg meta s"
  by (simp add: robust_log_def)

lemma bind_log_keywords:
  assumes "distinct (map fst kwargs)" and "''self'' \<notin> fst ` set kwargs"
    and "''level'' \<notin> fst ` set kwargs" and "''message'' \<notin> fst ` set kwargs"
  shows "bind_log [lvl, msg] kwargs = Inr (lvl, msg, kwargs)"
  using assms by (simp add: bind_log_def Let_def)

lemma bind_log_positional:
  "bind_log (lvl # msg # third # others) kwargs = Inl ''TypeError''"
  by (simp add: bind_log_def Let_def)

text \<open>
  Claim C4 says that \<^verbatim>\<open>log\<close> never raises to its caller, for every level, message and
  metadata. The code does otherwise. The method takes its metadata as keyword arguments,
  and a call that passes the metadata as a dictionary by position, as each call of the
  script does (lines 280, 286 and 291), raises \<^verbatim>\<open>TypeError\<close> before any sink is tried and
  writes nothing. So does a call whose metadata has the key \<open>level\<close>. The same level, message
  and metadata passed with the metadata as keywords are logged to the database.
\<close>

theorem robust_log_positional_metadata_raises:
  "robust_log toy_dumps RobustLogger ''2024-01-01T00:00:00Z''
      [PStr ''INFO'', PStr ''Testing robust logger'', PDict [(''fallback_test'', PBool True)]] []
      empty_sinks =
     Inl (''TypeError'', empty_sinks)
   \<and> robust_log toy_dumps RobustLogger ''2024-01-01T00:00:00Z''
      [PStr ''INFO'', PStr ''Testing robust logger''] [(''level'', PStr ''DEBUG'')]
      empty_sinks =
     Inl (''TypeError'', empty_sinks)
   \<and> robust_log toy_dumps RobustLogger ''2024-01-01T00:00:00Z''
      [PStr ''INFO'', PStr ''Testing robust logger''] [(''fallback_test'', PBool True)]
      empty_sinks =
     Inr ((), empty_sinks
            \<lparr>pipeline_logs :=
               [make_log_entry RobustLogger ''2024-01-01T00:00:00Z'' (PStr ''INFO'')
                  (PStr ''Testing robust logger'') [(''fallback_test'', PBool True)]],
             stdout := [Database_log (PStr ''Testing robust logger'')]\<rparr>)"
proof -
  have a: "bind_log [PStr ''INFO'', PStr ''Testing robust logger'', PDict [(''fallback_test'', PBool True)]] [] =
      Inl ''TypeError''"
    by (rule bind_log_positional)
  have b: "bind_log [PStr ''INFO'', PStr ''Testing robust logger''] [(''level'', PStr ''DEBUG'')] = Inl ''TypeError''"
    by (simp add: bind_log_def Let_def)
  have c: "bind_log [PStr ''INFO'', PStr ''Testing robust logger''] [(''fallback_test'', PBool True)] =
      Inr (PStr ''INFO'', PStr ''Testing robust logger'', [(''fallback_test'', PBool True)])"
    by (rule bind_log_keywords) simp_all
  have d: "conn_usable (empty_sinks :: (string \<times> pyval) list sinks)" by (simp add: empty_sinks_def)
  show ?thesis
    by (simp add: robust_log_def a b c raise_def log_body_def log_to_database_up [OF d])
       (simp add: return_def and_then_def make_log_entry_def empty_sinks_def)
qed


lemma recover_lines_all:
  assumes "conn_usable s" and "\<forall>line\<in>set ls. strip line \<noteq> [] \<longrightarrow> \<not> isl (loads line)"
  shows "recover_lines loads ls n s =
           return (n + length (parsed loads ls)) (s\<lparr>uncommitted := uncommitted s @ parsed loads ls\<rparr>)"
  using assms
proof (induction ls arbitrary: n s)
  case Nil
  then show ?case by (simp add: parsed_def return_def)
next
  case (Cons line ls)
  show ?case
  proof (cases "strip line \<noteq> []")
    case True
    with Cons.prems obtain e where e: "loads line = Inr e" by (cases "loads line") auto
    let ?s = "s\<lparr>uncommitted := uncommitted s @ [e]\<rparr>"
    have "recover_lines loads ls (Suc n) ?s =
        return (Suc n + length (parsed loads ls)) (?s\<lparr>uncommitted := uncommitted ?s @ parsed loads ls\<rparr>)"
      using Cons.prems by (intro Cons.IH) simp_all
    with True e Cons.prems(1) show ?thesis
      by (simp add: parsed_def execute_insert_def return_def and_then_def)
  next
    case False
    with Cons show ?thesis by (simp add: parsed_def)
  qed
qed

lemma recover_lines_malformed:
  assumes "conn_usable s" and "\<forall>line\<in>set before. strip line \<noteq> [] \<longrightarrow> \<not> isl (loads line)"
    and "strip bad \<noteq> []" and "loads bad = Inl e"
  shows "recover_lines loads (before @ bad # rest) n s =
           raise e (s\<lparr>uncommitted := uncommitted s @ parsed loads before\<rparr>)"
  using assms(1,2)
proof (induction before arbitrary: n s)
  case Nil
  then show ?case using assms(3,4) by (simp add: parsed_def raise_def and_then_def)
next
  case (Cons line ls)
  show ?case
  proof (cases "strip line \<noteq> []")
    case True
    with Cons.prems obtain x where x: "loads line = Inr x" by (cases "loads line") auto
    let ?s = "s\<lparr>uncommitted := uncommitted s @ [x]\<rparr>"
    have "recover_lines loads (ls @ bad # rest) (Suc n) ?s =
        raise e (?s\<lparr>uncommitted := uncommitted ?s @ parsed loads ls\<rparr>)"
      using Cons.prems by (intro Cons.IH) simp_all
    with True x Cons.prems(1) show ?thesis
      by (simp add: parsed_def execute_insert_def return_def and_then_def)
  next
    case False
    with Cons show ?thesis by (simp add: parsed_def)
  qed
qed

text \<open>
  Claim C3, as amended. With the database reachable, recovery submits the records of the
  fallback file in order and passes over blank lines. If every line that is not blank
  parses, it commits them all and reports their number. At the first malformed line it
  stops: it reports the failure and returns without raising, commits nothing (the records
  before that line stay uncommitted), and does not read the lines after it.
\<close>

theorem recover_file_logs_stops_at_malformed:
  assumes "fallback_log s = Some file_lines" and "conn_usable s"
  shows "((\<forall>line\<in>set file_lines. strip line \<noteq> [] \<longrightarrow> \<not> isl (loads line)) \<longrightarrow>
            recover_file_logs loads s =
              Inr ((), s\<lparr>pipeline_logs := pipeline_logs s @ uncommitted s @ parsed loads file_lines,
                         uncommitted := [],
                         stdout := stdout s @ [Recovered_log_entries (length (parsed loads file_lines))]\<rparr>))
       \<and> (file_lines = before @ bad # rest
            \<and> (\<forall>line\<in>set before. strip line \<noteq> [] \<longrightarrow> \<not> isl (loads line))
            \<and> strip bad \<noteq> [] \<and> loads bad = Inl e \<longrightarrow>
            recover_file_logs loads s =
              Inr ((), s\<lparr>uncommitted := uncommitted s @ parsed loads before,
                         stdout := stdout s @ [Log_recovery_failed e]\<rparr>))"
proof (intro conjI impI)
  assume "\<forall>line\<in>set file_lines. strip line \<noteq> [] \<longrightarrow> \<not> isl (loads line)"
  from recover_lines_all [OF assms(2) this, of 0] assms
  show "recover_file_logs loads s =
              Inr ((), s\<lparr>pipeline_logs := pipeline_logs s @ uncommitted s @ parsed loads file_lines,
                         uncommitted := [],
                         stdout := stdout s @ [Recovered_log_entries (length (parsed loads file_lines))]\<rparr>)"
    by (simp add: recover_file_logs_def commit_def result_defs)
next
  assume h: "file_lines = before @ bad # rest
            \<and> (\<forall>line\<in>set before. strip line \<noteq> [] \<longrightarrow> \<not> isl (loads line))
            \<and> strip bad \<noteq> [] \<and> loads bad = Inl e"
  then have "recover_lines loads file_lines 0 s = raise e (s\<lparr>uncommitted := uncommitted s @ parsed loads before\<rparr>)"
    using recover_lines_malformed [OF assms(2), of before loads bad e rest 0] by simp
  with assms show "recover_file_logs loads s =
              Inr ((), s\<lparr>uncommitted := uncommitted s @ parsed loads before,
                         stdout := stdout s @ [Log_recovery_failed e]\<rparr>)"
    by (simp add: recover_file_logs_def commit_def result_defs)
qed


lemma strip_samples:
  "strip ''{one'' = ''{one''" "strip ''{two'' = ''{two''" "strip ''garbage'' = ''garbage''" "strip ''   '' = []"
  by (simp_all add: strip_def is_space_def)

lemma toy_loads_samples:
  "toy_loads ''{one'' = Inr \<lparr>timestamp = ''2024-01-01T00:00:00Z'', level = PStr ''INFO'', message = PStr ''one'',
      log_pipeline_name = ''robust-pipeline'', log_run_id = ''robust-run-456'', log_metadata = ()\<rparr>"
  "toy_loads ''{two'' = Inr \<lparr>timestamp = ''2024-01-01T00:00:00Z'', level = PStr ''INFO'', message = PStr ''two'',
      log_pipeline_name = ''robust-pipeline'', log_run_id = ''robust-run-456'', log_metadata = ()\<rparr>"
  "toy_loads ''garbage'' = Inl ''JSONDecodeError''"
  by (simp_all add: toy_loads_def)

text \<open>
  Claim C3 as stated fails: on a file with a parseable line, a malformed line and another
  parseable line, recovery reports a failure, the table of the primary sink receives no
  record, and the record of the third line is never submitted.
\<close>

theorem recover_file_logs_skips_malformed_counterexample:
  "\<not> isl (toy_loads ''{one'') \<and> isl (toy_loads ''garbage'') \<and> \<not> isl (toy_loads ''{two'')
   \<and> recover_file_logs toy_loads (empty_sinks\<lparr>fallback_log := Some [''{one'', ''garbage'', ''{two'']\<rparr>) =
       Inr ((), empty_sinks\<lparr>fallback_log := Some [''{one'', ''garbage'', ''{two''],
                             uncommitted := [projr (toy_loads ''{one'')],
                             stdout := [Log_recovery_failed ''JSONDecodeError'']\<rparr>)
   \<and> pipeline_logs (snd (projr (recover_file_logs toy_loads
         (empty_sinks\<lparr>fallback_log := Some [''{one'', ''garbage'', ''{two'']\<rparr>)))) = []"
  by (simp add: recover_file_logs_def strip_samples toy_loads_samples empty_sinks_def
      execute_insert_def commit_def return_def raise_def and_then_def try_except_def print_def)

theorem recover_file_logs_stops_at_malformed_witness:
  "recover_file_logs toy_loads (empty_sinks\<lparr>fallback_log := Some [''{one'', ''   '', ''{two'']\<rparr>) =
     Inr ((), empty_sinks\<lparr>fallback_log := Some [''{one'', ''   '', ''{two''],
                           pipeline_logs := [projr (toy_loads ''{one''), projr (toy_loads ''{two'')],
                           stdout := [Recovered_log_entries 2]\<rparr>)
   \<and> recover_file_logs toy_loads (empty_sinks\<lparr>fallback_log := Some [''{one'', ''garbage'', ''{two'']\<rparr>) =
     Inr ((), empty_sinks\<lparr>fallback_log := Some [''{one'', ''garbage'', ''{two''],
                           uncommitted := [projr (toy_loads ''{one'')],
                           stdout := [Log_recovery_failed ''JSONDecodeError'']\<rparr>)"
proof -
  let ?good = "empty_sinks\<lparr>fallback_log := Some [''{one'', ''   '', ''{two'']\<rparr> :: unit sinks"
  let ?bad = "empty_sinks\<lparr>fallback_log := Some [''{one'', ''garbage'', ''{two'']\<rparr> :: unit sinks"
  have g1: "fallback_log ?good = Some [''{one'', ''   '', ''{two'']" and g2: "conn_usable ?good"
    and b1: "fallback_log ?bad = Some [''{one'', ''garbage'', ''{two'']" and b2: "conn_usable ?bad"
    by (simp_all add: empty_sinks_def)
  have g3: "\<forall>line\<in>set [''{one'', ''   '', ''{two'']. strip line \<noteq> [] \<longrightarrow> \<not> isl (toy_loads line)"
    by (simp add: strip_samples toy_loads_samples)
  have b3: "[''{one'', ''garbage'', ''{two''] = [''{one''] @ ''garbage'' # [''{two'']
      \<and> (\<forall>line\<in>set [''{one'']. strip line \<noteq> [] \<longrightarrow> \<not> isl (toy_loads line))
      \<and> strip ''garbage'' \<noteq> [] \<and> toy_loads ''garbage'' = Inl ''JSONDecodeError''"
    by (simp add: strip_samples toy_loads_samples)
  have p: "parsed toy_loads [''{one'', ''   '', ''{two''] = [projr (toy_loads ''{one''), projr (toy_loads ''{two'')]"
    "parsed toy_loads [''{one''] = [projr (toy_loads ''{one'')]"
    by (simp_all add: parsed_def strip_samples)
  from recover_file_logs_stops_at_malformed [OF g1 g2, where loads = toy_loads] g3
  have a: "recover_file_logs toy_loads ?good =
     Inr ((), ?good\<lparr>pipeline_logs := pipeline_logs ?good @ uncommitted ?good @ parsed toy_loads [''{one'', ''   '', ''{two''],
                         uncommitted := [],
                         stdout := stdout ?good @ [Recovered_log_entries (length (parsed toy_loads [''{one'', ''   '', ''{two'']))]\<rparr>)"
    by blast
  from recover_file_logs_stops_at_malformed [OF b1 b2, where loads = toy_loads and before = "[''{one'']"
      and bad = "''garbage''" and rest = "[''{two'']" and e = "''JSONDecodeError''"] b3
  have b: "recover_file_logs toy_loads ?bad =
     Inr ((), ?bad\<lparr>uncommitted := uncommitted ?bad @ parsed toy_loads [''{one''],
                         stdout := stdout ?bad @ [Log_recovery_failed ''JSONDecodeError'']\<rparr>)"
    by blast
  show ?thesis unfolding a b p by (simp add: empty_sinks_def)
qed

section \<open>Properties of the checkpoint manager\<close>

lemma filter_key_distinct:
  "distinct (map f xs) \<Longrightarrow> filter (\<lambda>x. f x = k) xs = [] \<or> (\<exists>r. filter (\<lambda>x. f x = k) xs = [r])"
proof (induction xs)
  case Nil
  then show ?case by simp
next
  case (Cons x xs)
  show ?case
  proof (cases "f x = k")
    case True
    from Cons.prems have "f x \<notin> f ` set xs" by simp
    with True have "\<forall>y\<in>set xs. f y \<noteq> k" by blast
    then have "filter (\<lambda>x. f x = k) xs = []" by (simp add: filter_empty_conv)
    with True show ?thesis by simp
  next
    case False
    with Cons show ?thesis by simp
  qed
qed

lemma rows_of_unique:
  assumes "unique_key table"
  shows "rows_of self stg key table = [] \<or> (\<exists>r. rows_of self stg key table = [r])"
proof -
  let ?f = "\<lambda>row. (pipeline_name row, run_id row, stage row, checkpoint_key row)"
  have "rows_of self stg key table =
      filter (\<lambda>row. ?f row = (cm_pipeline_name self, cm_run_id self, stg, key)) table"
    by (simp add: rows_of_def unit_row_def [abs_def] conj_commute eq_commute)
  with filter_key_distinct [of ?f table "(cm_pipeline_name self, cm_run_id self, stg, key)"] assms
  show ?thesis by (simp add: unique_key_def)
qed

lemma filter_map_update:
  assumes "\<And>x. P x \<Longrightarrow> P (f x)"
  shows "filter P (map (\<lambda>x. if P x then f x else x) xs) = map f (filter P xs)"
  using assms by (induction xs) auto

lemma rows_of_filter: "rows_of self stg key table = filter (unit_row self stg key) table"
  by (simp add: rows_of_def)

lemma conflicts_unit_row:
  "pipeline_name new = cm_pipeline_name self \<Longrightarrow> run_id new = cm_run_id self \<Longrightarrow> stage new = stg \<Longrightarrow>
   checkpoint_key new = key \<Longrightarrow> conflicts new = unit_row self stg key"
  by (rule ext) (simp add: conflicts_def unit_row_def)

lemma list_ex_filter: "list_ex P xs \<longleftrightarrow> filter P xs \<noteq> []"
  by (induction xs) auto

lemma rows_of_insert_or_update:
  assumes "pipeline_name new = cm_pipeline_name self" "run_id new = cm_run_id self" "stage new = stg"
    "checkpoint_key new = key"
  shows "rows_of self stg key (insert_or_update new table) =
           (if rows_of self stg key table = [] then [new]
            else map (\<lambda>row. row\<lparr>checkpoint_value := checkpoint_value new, status := status new,
                                 end_time := end_time new, duration_ms := duration_ms new,
                                 metadata := metadata new, updated_at := updated_at new\<rparr>)
                   (rows_of self stg key table))"
proof -
  have c: "conflicts new = unit_row self stg key" using assms by (rule conflicts_unit_row)
  have n: "unit_row self stg key new" using assms by (simp add: unit_row_def)
  show ?thesis
  proof (cases "rows_of self stg key table = []")
    case True
    then have "\<not> list_ex (unit_row self stg key) table" by (simp add: list_ex_filter rows_of_filter)
    with True n show ?thesis by (simp add: insert_or_update_def c rows_of_filter)
  next
    case False
    then have "list_ex (unit_row self stg key) table" by (simp add: list_ex_filter rows_of_filter)
    moreover have "filter (unit_row self stg key)
        (map (\<lambda>row. if unit_row self stg key row
                     then row\<lparr>checkpoint_value := checkpoint_value new, status := status new,
                                 end_time := end_time new, duration_ms := duration_ms new,
                                 metadata := metadata new, updated_at := updated_at new\<rparr>
                     else row) table) =
        map (\<lambda>row. row\<lparr>checkpoint_value := checkpoint_value new, status := status new,
                                 end_time := end_time new, duration_ms := duration_ms new,
                                 metadata := metadata new, updated_at := updated_at new\<rparr>)
          (filter (unit_row self stg key) table)"
      by (rule filter_map_update) (simp add: unit_row_def)
    ultimately show ?thesis using False by (simp add: insert_or_update_def c rows_of_filter)
  qed
qed

lemma length_insert_or_update:
  "length (insert_or_update new table) = (if list_ex (conflicts new) table then length table else Suc (length table))"
  by (simp add: insert_or_update_def)

lemma unique_key_insert_or_update: "unique_key table \<Longrightarrow> unique_key (insert_or_update new table)"
proof -
  let ?f = "\<lambda>row. (pipeline_name row, run_id row, stage row, checkpoint_key row)"
  let ?u = "\<lambda>row. if conflicts new row
                       then row\<lparr>checkpoint_value := checkpoint_value new, status := status new,
                                 end_time := end_time new, duration_ms := duration_ms new,
                                 metadata := metadata new, updated_at := updated_at new\<rparr>
                       else row"
  assume u: "unique_key table"
  have m: "map ?f (map ?u table) = map ?f table" by (induction table) auto
  show ?thesis
  proof (cases "list_ex (conflicts new) table")
    case True
    then have "insert_or_update new table = map ?u table" by (simp add: insert_or_update_def)
    then have "unique_key (insert_or_update new table) = distinct (map ?f (map ?u table))"
      by (simp only: unique_key_def)
    with m u show ?thesis by (simp only: unique_key_def)
  next
    case False
    then have "?f new \<notin> set (map ?f table)" by (auto simp: list_ex_iff conflicts_def)
    with False u show ?thesis by (simp add: unique_key_def insert_or_update_def)
  qed
qed

lemma unique_key_insert_or_nothing: "unique_key table \<Longrightarrow> unique_key (insert_or_nothing new table)"
  by (auto simp: unique_key_def insert_or_nothing_def list_ex_iff conflicts_def)

lemma set_checkpoint_row:
  "db_conn self \<Longrightarrow> set_checkpoint self stg key val sa ma t table =
     insert_or_update (checkpoint_row self stg key val sa ma t) table"
  by (simp add: set_checkpoint_def)

lemma rows_of_set_checkpoint:
  assumes "db_conn self"
  shows "rows_of self stg key (set_checkpoint self stg key val sa ma t table) =
           (if rows_of self stg key table = [] then [checkpoint_row self stg key val sa ma t]
            else map (\<lambda>row. row\<lparr>checkpoint_value := Some val,
                                 status := (case sa of None \<Rightarrow> ''completed'' | Some s \<Rightarrow> s),
                                 end_time := Some t,
                                 duration_ms := Some (if truthy ma then dict_get (the ma) ''duration_ms'' 0 else 0),
                                 metadata := (if truthy ma then ma else None),
                                 updated_at := Some t\<rparr>)
                   (rows_of self stg key table))"
proof -
  let ?new = "checkpoint_row self stg key val sa ma t"
  have "rows_of self stg key (insert_or_update ?new table) =
           (if rows_of self stg key table = [] then [?new]
            else map (\<lambda>row. row\<lparr>checkpoint_value := checkpoint_value ?new, status := status ?new,
                                 end_time := end_time ?new, duration_ms := duration_ms ?new,
                                 metadata := metadata ?new, updated_at := updated_at ?new\<rparr>)
                   (rows_of self stg key table))"
    by (rule rows_of_insert_or_update) (simp_all add: checkpoint_row_def)
  then show ?thesis using assms by (simp add: set_checkpoint_row) (simp add: checkpoint_row_def)
qed

lemma unique_key_set_checkpoint:
  "unique_key table \<Longrightarrow> unique_key (set_checkpoint self stg key val sa ma t table)"
  by (simp add: set_checkpoint_def unique_key_insert_or_update)

lemma unique_key_start_stage:
  "unique_key table \<Longrightarrow> unique_key (start_stage self stg key t table)"
  by (simp add: start_stage_def unique_key_insert_or_nothing)

lemma length_set_checkpoint_again:
  assumes "db_conn self"
  shows "length (set_checkpoint self stg key val' sa' ma' t2 (set_checkpoint self stg key val sa ma t1 table)) =
         length (set_checkpoint self stg key val sa ma t1 table)"
proof -
  let ?T1 = "set_checkpoint self stg key val sa ma t1 table"
  have "rows_of self stg key ?T1 \<noteq> []" using assms by (simp add: rows_of_set_checkpoint)
  then have "list_ex (unit_row self stg key) ?T1" by (simp add: list_ex_filter rows_of_filter)
  moreover have "conflicts (checkpoint_row self stg key val' sa' ma' t2) = unit_row self stg key"
    by (rule conflicts_unit_row) (simp_all add: checkpoint_row_def)
  ultimately show ?thesis using assms
    by (simp add: set_checkpoint_row [of self stg key val' sa' ma' t2] length_insert_or_update)
qed

text \<open>
  Claim C5. With a connection and a table that meets its unique constraint, two calls of
  \<^verbatim>\<open>set_checkpoint\<close> with the same arguments leave exactly one row for the unit, and the
  second call adds no row. The second call overwrites the value, status, end time,
  duration, metadata and update time of that row and keeps the start time it had after the
  first call, which is the time of the first call when the unit had no row before.
\<close>

theorem set_checkpoint_twice:
  assumes "db_conn self" and "unique_key table"
  shows "\<exists>r1 r2.
           rows_of self stg key (set_checkpoint self stg key val sa ma t1 table) = [r1]
         \<and> rows_of self stg key
              (set_checkpoint self stg key val sa ma t2 (set_checkpoint self stg key val sa ma t1 table)) = [r2]
         \<and> length (set_checkpoint self stg key val sa ma t2 (set_checkpoint self stg key val sa ma t1 table)) =
             length (set_checkpoint self stg key val sa ma t1 table)
         \<and> start_time r2 = start_time r1
         \<and> (rows_of self stg key table = [] \<longrightarrow> start_time r1 = Some t1)
         \<and> checkpoint_value r2 = Some val
         \<and> status r2 = (case sa of None \<Rightarrow> ''completed'' | Some s \<Rightarrow> s)
         \<and> end_time r2 = Some t2
         \<and> duration_ms r2 = Some (if truthy ma then dict_get (the ma) ''duration_ms'' 0 else 0)
         \<and> metadata r2 = (if truthy ma then ma else None)
         \<and> updated_at r2 = Some t2"
proof -
  let ?T1 = "set_checkpoint self stg key val sa ma t1 table"
  let ?T2 = "set_checkpoint self stg key val sa ma t2 ?T1"
  let ?u = "\<lambda>t row. row\<lparr>checkpoint_value := Some val,
                                 status := (case sa of None \<Rightarrow> ''completed'' | Some s \<Rightarrow> s),
                                 end_time := Some t,
                                 duration_ms := Some (if truthy ma then dict_get (the ma) ''duration_ms'' 0 else 0),
                                 metadata := (if truthy ma then ma else None),
                                 updated_at := Some t\<rparr>"
  from rows_of_unique [OF assms(2), of self stg key]
  obtain r1 where r1: "rows_of self stg key ?T1 = [r1]"
    and s1: "rows_of self stg key table = [] \<longrightarrow> start_time r1 = Some t1"
    by (auto simp: rows_of_set_checkpoint [OF assms(1)] checkpoint_row_def)
  have r2: "rows_of self stg key ?T2 = [?u t2 r1]"
    using r1 by (simp add: rows_of_set_checkpoint [OF assms(1), of stg key val sa ma t2 ?T1])
  have len: "length ?T2 = length ?T1" using assms(1) by (rule length_set_checkpoint_again)
  show ?thesis
    by (rule exI [of _ r1], rule exI [of _ "?u t2 r1"]) (simp add: r1 r2 len s1)
qed


theorem set_checkpoint_twice_witness:
  "db_conn (ReliablePipeline ''run-1'') \<and> unique_key ([] :: nat checkpoint list)
   \<and> length (rows_of (ReliablePipeline ''run-1'') ''test_stage'' ''test_key''
        (set_checkpoint (ReliablePipeline ''run-1'') ''test_stage'' ''test_key'' ''value1'' None
           (Some [(''records_processed'', 100), (''duration_ms'', 5000)]) (20::nat)
           (set_checkpoint (ReliablePipeline ''run-1'') ''test_stage'' ''test_key'' ''value1'' None
              (Some [(''records_processed'', 100), (''duration_ms'', 5000)]) 10 []))) = 1
   \<and> map (\<lambda>r. (start_time r, end_time r, checkpoint_value r, status r, duration_ms r))
        (rows_of (ReliablePipeline ''run-1'') ''test_stage'' ''test_key''
          (set_checkpoint (ReliablePipeline ''run-1'') ''test_stage'' ''test_key'' ''value1'' None
             (Some [(''records_processed'', 100), (''duration_ms'', 5000)]) (20::nat)
             (set_checkpoint (ReliablePipeline ''run-1'') ''test_stage'' ''test_key'' ''value1'' None
                (Some [(''records_processed'', 100), (''duration_ms'', 5000)]) 10 []))) =
       [(Some 10, Some 20, Some ''value1'', ''completed'', Some 5000)]"
proof -
  have h1: "db_conn (ReliablePipeline ''run-1'')" by (simp add: ReliablePipeline_def)
  have h2: "unique_key ([] :: nat checkpoint list)" by (simp add: unique_key_def)
  have e: "rows_of (ReliablePipeline ''run-1'') ''test_stage'' ''test_key'' ([] :: nat checkpoint list) = []"
    by (simp add: rows_of_def)
  have d: "truthy (Some [(''records_processed'', 100), (''duration_ms'', 5000)])"
    "dict_get [(''records_processed'', 100), (''duration_ms'', 5000)] ''duration_ms'' 0 = 5000"
    by (simp_all add: truthy_def dict_get_def)
  from set_checkpoint_twice [OF h1 h2, where stg = "''test_stage''" and key = "''test_key''"
      and val = "''value1''" and sa = None
      and ma = "Some [(''records_processed'', 100), (''duration_ms'', 5000)]" and ?t1.0 = 10 and ?t2.0 = 20]
  show ?thesis using h1 h2 e d by auto
qed

text \<open>
  Claim C8. \<^verbatim>\<open>start_stage\<close> on a unit that already has a row leaves the table as it is; in
  particular a second \<^verbatim>\<open>start_stage\<close> after a first changes nothing, so the row keeps the
  start time and the status the first call wrote and no row is added. The first call on a
  unit without a row appends one row with status \<open>in_progress\<close> and its own time as start.
\<close>

theorem start_stage_again:
  fixes table :: "'t checkpoint list"
  shows "(rows_of self stg key table \<noteq> [] \<longrightarrow> start_stage self stg key t table = table)
   \<and> start_stage self stg key t2 (start_stage self stg key t1 table) = start_stage self stg key t1 table
   \<and> rows_of self stg key (start_stage self stg key t2 (start_stage self stg key t1 table)) =
       rows_of self stg key (start_stage self stg key t1 table)
   \<and> (db_conn self \<and> rows_of self stg key table = [] \<longrightarrow>
        start_stage self stg key t1 table = table @ [started_row self stg key t1]
        \<and> rows_of self stg key (start_stage self stg key t1 table) = [started_row self stg key t1]
        \<and> status (started_row self stg key t1) = ''in_progress''
        \<and> start_time (started_row self stg key t1) = Some t1)"
proof -
  have c: "conflicts (started_row self stg key t) = unit_row self stg key" for t :: 't
    by (rule conflicts_unit_row) (simp_all add: started_row_def)
  have n: "unit_row self stg key (started_row self stg key t)" for t :: 't
    by (simp add: unit_row_def started_row_def)
  have a: "rows_of self stg key table \<noteq> [] \<longrightarrow> start_stage self stg key t table = table"
    for t :: 't and table :: "'t checkpoint list"
    by (simp add: start_stage_def insert_or_nothing_def c list_ex_filter rows_of_filter)
  have b: "db_conn self \<and> rows_of self stg key table = [] \<longrightarrow>
        start_stage self stg key t1 table = table @ [started_row self stg key t1]"
    by (simp add: start_stage_def insert_or_nothing_def c list_ex_filter rows_of_filter)
  have d: "start_stage self stg key t2 (start_stage self stg key t1 table) = start_stage self stg key t1 table"
  proof (cases "db_conn self \<and> rows_of self stg key table = []")
    case True
    with b have "rows_of self stg key (start_stage self stg key t1 table) \<noteq> []"
      using n by (simp add: rows_of_filter)
    with a show ?thesis by blast
  next
    case False
    then show ?thesis using a [of table] by (auto simp: start_stage_def)
  qed
  show ?thesis using a [of table t] b d n by (auto simp: rows_of_filter started_row_def)
qed

theorem start_stage_again_witness:
  "start_stage (ReliablePipeline ''run-1'') ''test_stage'' ''test_key'' (10::nat) [] =
     [started_row (ReliablePipeline ''run-1'') ''test_stage'' ''test_key'' 10]
   \<and> start_stage (ReliablePipeline ''run-1'') ''test_stage'' ''test_key'' (20::nat)
       [started_row (ReliablePipeline ''run-1'') ''test_stage'' ''test_key'' 10] =
     [started_row (ReliablePipeline ''run-1'') ''test_stage'' ''test_key'' 10]
   \<and> start_time (started_row (ReliablePipeline ''run-1'') ''test_stage'' ''test_key'' (10::nat)) = Some 10"
proof -
  let ?cm = "ReliablePipeline ''run-1''"
  have h: "db_conn ?cm \<and> rows_of ?cm ''test_stage'' ''test_key'' ([] :: nat checkpoint list) = []"
    by (simp add: ReliablePipeline_def rows_of_def)
  from start_stage_again [where self = ?cm and stg = "''test_stage''" and key = "''test_key''"
      and table = "[] :: nat checkpoint list" and t = 10 and ?t2.0 = 20 and ?t1.0 = 10] h
  have a: "start_stage ?cm ''test_stage'' ''test_key'' (10::nat) [] = [started_row ?cm ''test_stage'' ''test_key'' 10]"
    and b: "start_time (started_row ?cm ''test_stage'' ''test_key'' (10::nat)) = Some 10"
    by simp_all
  have h': "rows_of ?cm ''test_stage'' ''test_key'' [started_row ?cm ''test_stage'' ''test_key'' (10::nat)] \<noteq> []"
    by (simp add: rows_of_def unit_row_def started_row_def)
  from start_stage_again [where self = ?cm and stg = "''test_stage''" and key = "''test_key''"
      and table = "[started_row ?cm ''test_stage'' ''test_key'' (10::nat)]" and t = 20
      and ?t2.0 = 20 and ?t1.0 = 10] h'
  have c: "start_stage ?cm ''test_stage'' ''test_key'' (20::nat) [started_row ?cm ''test_stage'' ''test_key'' 10] =
     [started_row ?cm ''test_stage'' ''test_key'' 10]"
    by simp
  from a b c show ?thesis by simp
qed

section \<open>The checkpoints of a failing run\<close>

lemma stage_body_returns:
  "sql (business s) = (Inr n, b) \<Longrightarrow>
     stage_body cm name sql s =
       (Inr n,
        \<lparr>checkpoints = set_checkpoint cm name ''end'' ''completed'' None (Some [(''rows_updated'', n)])
                         (Suc (clock s)) (start_stage cm name ''start'' (clock s) (checkpoints s)),
         clock = Suc (Suc (clock s)), business = b\<rparr>)"
  by (simp add: stage_body_def Let_def)

lemma stage_body_raises:
  "sql (business s) = (Inl e, b) \<Longrightarrow>
     stage_body cm name sql s =
       (Inl e,
        \<lparr>checkpoints = set_checkpoint cm name ''end'' ''failed'' None None
                         (Suc (clock s)) (start_stage cm name ''start'' (clock s) (checkpoints s)),
         clock = Suc (Suc (clock s)), business = b\<rparr>)"
  by (simp add: stage_body_def Let_def)

lemma country_outcome:
  "outcome (stage_body cm name country_sql_failing) s i = Inl ''OperationalError''"
proof (induction i arbitrary: s)
  case 0
  have "country_sql_failing (business s) = (Inl ''OperationalError'', Suc (business s))"
    by (simp add: country_sql_failing_def)
  then show ?case by (simp add: outcome_0 stage_body_raises)
next
  case (Suc i)
  then show ?case by (simp add: outcome_Suc)
qed

lemma country_step:
  "snd (stage_body cm name country_sql_failing s) =
     \<lparr>checkpoints = set_checkpoint cm name ''end'' ''failed'' None None
                         (Suc (clock s)) (start_stage cm name ''start'' (clock s) (checkpoints s)),
      clock = Suc (Suc (clock s)), business = Suc (business s)\<rparr>"
proof -
  have "country_sql_failing (business s) = (Inl ''OperationalError'', Suc (business s))"
    by (simp add: country_sql_failing_def)
  then show ?thesis by (simp add: stage_body_raises)
qed

lemma update_stage_product:
  "update_stage delay cm rnd ''product_performance'' product_sql_ok s =
     (Inr 5,
      \<lparr>checkpoints = set_checkpoint cm ''product_performance'' ''end'' ''completed'' None
                       (Some [(''rows_updated'', 5)]) (Suc (clock s))
                       (start_stage cm ''product_performance'' ''start'' (clock s) (checkpoints s)),
       clock = Suc (Suc (clock s)), business = business s\<rparr>,
      [])"
proof -
  let ?f = "stage_body cm ''product_performance'' product_sql_ok"
  have p: "product_sql_ok (business s) = (Inr 5, business s)" by (simp add: product_sql_ok_def)
  have "\<forall>i<(0::nat). isl (outcome ?f s i)" by simp
  moreover have "outcome ?f s 0 = Inr 5" using p by (simp add: outcome_0 stage_body_returns)
  moreover have "int 0 < 3" by simp
  ultimately have "retry_with_backoff delay 3 1 rnd ?f s = (Inr 5, after ?f s (Suc 0), delays delay 1 rnd 0)"
    by (rule retry_success)
  then show ?thesis using p by (simp add: update_stage_def delays_def stage_body_returns)
qed

lemma update_stage_country:
  "fst (update_stage delay cm rnd ''country_sales'' country_sql_failing s) = Inl (Raised ''OperationalError'')
   \<and> fst (snd (update_stage delay cm rnd ''country_sales'' country_sql_failing s)) =
       snd (stage_body cm ''country_sales'' country_sql_failing
         (snd (stage_body cm ''country_sales'' country_sql_failing
           (snd (stage_body cm ''country_sales'' country_sql_failing s)))))"
proof -
  let ?g = "stage_body cm ''country_sales'' country_sql_failing"
  have "\<forall>i<nat 3. outcome ?g s i = Inl ((\<lambda>i. ''OperationalError'') i)" by (simp add: country_outcome)
  moreover have "(1::int) \<le> 3" by simp
  ultimately have "retry_with_backoff delay 3 1 rnd ?g s =
      (Inl (Raised ((\<lambda>i. ''OperationalError'') (nat 3 - 1))), after ?g s (nat 3), delays delay 1 rnd (nat 3 - 1))"
    by (rule retry_exhausted)
  moreover have "after ?g s (nat 3) = snd (?g (snd (?g (snd (?g s)))))"
    by (simp add: numeral_3_eq_3)
  ultimately show ?thesis by (simp add: update_stage_def)
qed


lemma scenario_run:
  "fst scenario = Inl (Raised ''OperationalError'')
   \<and> business (snd scenario) = 3
   \<and> checkpoints (snd scenario) =
       set_checkpoint (ReliablePipeline ''run-1'') ''country_sales'' ''end'' ''failed'' None None 7
         (start_stage (ReliablePipeline ''run-1'') ''country_sales'' ''start'' 6
           (set_checkpoint (ReliablePipeline ''run-1'') ''country_sales'' ''end'' ''failed'' None None 5
             (start_stage (ReliablePipeline ''run-1'') ''country_sales'' ''start'' 4
               (set_checkpoint (ReliablePipeline ''run-1'') ''country_sales'' ''end'' ''failed'' None None 3
                 (start_stage (ReliablePipeline ''run-1'') ''country_sales'' ''start'' 2
                   (set_checkpoint (ReliablePipeline ''run-1'') ''product_performance'' ''end'' ''completed''
                      None (Some [(''rows_updated'', 5)]) 1
                     (start_stage (ReliablePipeline ''run-1'') ''product_performance'' ''start'' 0 [])))))))"
proof -
  let ?cm = "ReliablePipeline ''run-1''"
  let ?s0 = "\<lparr>checkpoints = [], clock = 0, business = 0::nat\<rparr>"
  let ?s1 = "\<lparr>checkpoints = set_checkpoint ?cm ''product_performance'' ''end'' ''completed'' None
                       (Some [(''rows_updated'', 5)]) (Suc 0)
                       (start_stage ?cm ''product_performance'' ''start'' 0 []),
       clock = Suc (Suc 0), business = 0::nat\<rparr>"
  obtain r s2 sl where u: "update_stage exact_delay ?cm (\<lambda>i. 0) ''country_sales'' country_sql_failing ?s1 = (r, s2, sl)"
    by (cases "update_stage exact_delay ?cm (\<lambda>i. 0) ''country_sales'' country_sql_failing ?s1")
  from update_stage_country [where cm = ?cm and rnd = "\<lambda>i. 0" and s = ?s1 and delay = exact_delay] u
  have r: "r = Inl (Raised ''OperationalError'')"
    and s2: "s2 = snd (stage_body ?cm ''country_sales'' country_sql_failing
         (snd (stage_body ?cm ''country_sales'' country_sql_failing
           (snd (stage_body ?cm ''country_sales'' country_sql_failing ?s1)))))"
    by simp_all
  have sc: "scenario = (Inl (Raised ''OperationalError''), s2)"
    by (simp add: scenario_def run_pipeline_def update_stage_product u r)
  have c: "checkpoints s2 =
       set_checkpoint ?cm ''country_sales'' ''end'' ''failed'' None None (Suc (Suc (Suc (Suc (Suc (Suc (Suc 0)))))))
         (start_stage ?cm ''country_sales'' ''start'' (Suc (Suc (Suc (Suc (Suc (Suc 0))))))
           (set_checkpoint ?cm ''country_sales'' ''end'' ''failed'' None None (Suc (Suc (Suc (Suc (Suc 0)))))
             (start_stage ?cm ''country_sales'' ''start'' (Suc (Suc (Suc (Suc 0))))
               (set_checkpoint ?cm ''country_sales'' ''end'' ''failed'' None None (Suc (Suc (Suc 0)))
                 (start_stage ?cm ''country_sales'' ''start'' (Suc (Suc 0)) (checkpoints ?s1))))))"
    and b: "business s2 = Suc (Suc (Suc 0))"
    by (simp_all add: s2 country_step)
  have n: "(7::nat) = Suc (Suc (Suc (Suc (Suc (Suc (Suc 0))))))" "(6::nat) = Suc (Suc (Suc (Suc (Suc (Suc 0)))))"
    "(5::nat) = Suc (Suc (Suc (Suc (Suc 0))))" "(4::nat) = Suc (Suc (Suc (Suc 0)))"
    "(3::nat) = Suc (Suc (Suc 0))" "(2::nat) = Suc (Suc 0)" "(1::nat) = Suc 0"
    by simp_all
  show ?thesis unfolding sc n by (simp add: c b)
qed

lemma scenario_rows:
  "map (\<lambda>r. (stage r, checkpoint_key r, checkpoint_value r, status r))
     (set_checkpoint (ReliablePipeline ''run-1'') ''country_sales'' ''end'' ''failed'' None None (7::nat)
         (start_stage (ReliablePipeline ''run-1'') ''country_sales'' ''start'' 6
           (set_checkpoint (ReliablePipeline ''run-1'') ''country_sales'' ''end'' ''failed'' None None 5
             (start_stage (ReliablePipeline ''run-1'') ''country_sales'' ''start'' 4
               (set_checkpoint (ReliablePipeline ''run-1'') ''country_sales'' ''end'' ''failed'' None None 3
                 (start_stage (ReliablePipeline ''run-1'') ''country_sales'' ''start'' 2
                   (set_checkpoint (ReliablePipeline ''run-1'') ''product_performance'' ''end'' ''completed''
                      None (Some [(''rows_updated'', 5)]) 1
                     (start_stage (ReliablePipeline ''run-1'') ''product_performance'' ''start'' 0 [])))))))) =
       [(''product_performance'', ''start'', None, ''in_progress''),
        (''product_performance'', ''end'', Some ''completed'', ''completed''),
        (''country_sales'', ''start'', None, ''in_progress''),
        (''country_sales'', ''end'', Some ''failed'', ''completed'')]"
  by (simp add: ReliablePipeline_def start_stage_def set_checkpoint_def
      insert_or_nothing_def insert_or_update_def conflicts_def checkpoint_row_def started_row_def
      truthy_def dict_get_def)


lemma scenario_get:
  "get_checkpoint (ReliablePipeline ''run-1'') ''country_sales'' ''end''
     (set_checkpoint (ReliablePipeline ''run-1'') ''country_sales'' ''end'' ''failed'' None None (7::nat)
         (start_stage (ReliablePipeline ''run-1'') ''country_sales'' ''start'' 6
           (set_checkpoint (ReliablePipeline ''run-1'') ''country_sales'' ''end'' ''failed'' None None 5
             (start_stage (ReliablePipeline ''run-1'') ''country_sales'' ''start'' 4
               (set_checkpoint (ReliablePipeline ''run-1'') ''country_sales'' ''end'' ''failed'' None None 3
                 (start_stage (ReliablePipeline ''run-1'') ''country_sales'' ''start'' 2
                   (set_checkpoint (ReliablePipeline ''run-1'') ''product_performance'' ''end'' ''completed''
                      None (Some [(''rows_updated'', 5)]) 1
                     (start_stage (ReliablePipeline ''run-1'') ''product_performance'' ''start'' 0 [])))))))) = Some ''failed''"
  by (simp add: ReliablePipeline_def start_stage_def set_checkpoint_def
      insert_or_nothing_def insert_or_update_def conflicts_def checkpoint_row_def started_row_def
      truthy_def dict_get_def get_checkpoint_def rows_of_def unit_row_def)

text \<open>
  Claim C1 says that the checkpoint row of a stage whose operation raises after the retries
  are exhausted has status \<open>failed\<close>. The code does otherwise. In the run of two stages
  where the first succeeds and the second raises on each of its three attempts, the run
  raises the last exception and the second operation has run three times, but the row
  \<open>end\<close> of the second stage has status \<open>completed\<close>: the handler passes \<open>failed\<close> as the
  third positional argument, which is the checkpoint value, and the status keeps its
  default. No row of the run has status \<open>failed\<close>; \<^verbatim>\<open>get_checkpoint\<close>, which reads the
  value, returns \<open>failed\<close>.
\<close>

theorem failed_stage_checkpoint_status:
  "fst scenario = Inl (Raised ''OperationalError'')
   \<and> business (snd scenario) = 3
   \<and> map (\<lambda>r. (stage r, checkpoint_key r, checkpoint_value r, status r)) (checkpoints (snd scenario)) =
       [(''product_performance'', ''start'', None, ''in_progress''),
        (''product_performance'', ''end'', Some ''completed'', ''completed''),
        (''country_sales'', ''start'', None, ''in_progress''),
        (''country_sales'', ''end'', Some ''failed'', ''completed'')]
   \<and> get_checkpoint (ReliablePipeline ''run-1'') ''country_sales'' ''end'' (checkpoints (snd scenario)) =
       Some ''failed''"
  using scenario_run scenario_rows scenario_get by simp

section \<open>Properties of the monthly sweep\<close>

lemma set_get_processed_months: "set (get_processed_months table) = month_key ` set table"
  by (simp add: get_processed_months_def)

lemma unprocessed_months_skips:
  assumes "(y, m) \<in> set (unprocessed_months args distinct_months (get_processed_months table))"
  shows "month_key_of y m \<notin> month_key ` set table"
  using assms by (simp add: unprocessed_months_def Let_def set_get_processed_months del: image_iff)

lemma month_rows_set_month_processed:
  assumes "month_key_of y m \<noteq> k"
  shows "month_rows k (set_month_processed y m st now table) = month_rows k table"
proof -
  have "filter (\<lambda>row. month_key row = k)
          (map (\<lambda>row. if month_key row = month_key_of y m
                       then row\<lparr>month_status := st, processed_at := now\<rparr> else row) table) =
        filter (\<lambda>row. month_key row = k) table"
    using assms by (induction table) auto
  then show ?thesis using assms by (auto simp: month_rows_def set_month_processed_def)
qed

lemma month_keys_set_month_processed:
  "month_key ` set (set_month_processed y m st now table) = insert (month_key_of y m) (month_key ` set table)"
proof -
  let ?u = "\<lambda>row. if month_key row = month_key_of y m
                       then row\<lparr>month_status := st, processed_at := now\<rparr> else row"
  have "map month_key (map ?u table) = map month_key table"
    by (induction table) auto
  then have "set (map month_key (map ?u table)) = set (map month_key table)" by simp
  then have m: "month_key ` set (map ?u table) = month_key ` set table"
    by (simp only: set_map)
  show ?thesis
  proof (cases "list_ex (\<lambda>row. month_key row = month_key_of y m) table")
    case True
    then obtain row where "row \<in> set table" "month_key row = month_key_of y m"
      by (auto simp: list_ex_iff)
    then have "month_key_of y m \<in> month_key ` set table" by (metis imageI)
    moreover from True have "set_month_processed y m st now table = map ?u table"
      by (simp add: set_month_processed_def)
    ultimately show ?thesis using m by (simp only: insert_absorb)
  next
    case False
    then show ?thesis by (simp add: set_month_processed_def)
  qed
qed

lemma wrapper_loop_preserves:
  assumes "\<And>w. P w \<Longrightarrow> P (snd (func w))" and "P w"
  shows "P (fst (snd (wrapper_loop delay max_attempts base_delay rnd func attempts last_exception w slept)))"
  using assms(2)
proof (induction attempts arbitrary: last_exception w slept)
  case Nil
  then show ?case by simp
next
  case (Cons attempt rest)
  obtain r w' where f: "func w = (r, w')" by (cases "func w")
  with assms(1) [OF Cons.prems] have "P w'" by simp
  with Cons.IH f show ?case by (cases r) simp_all
qed

lemma retry_preserves:
  assumes "\<And>w. P w \<Longrightarrow> P (snd (func w))" and "P w"
  shows "P (fst (snd (retry_with_backoff delay max_attempts base_delay rnd func w)))"
  unfolding retry_with_backoff_def using assms by (rule wrapper_loop_preserves)

lemma traced_other_month:
  assumes "(y, m) \<noteq> u"
  shows "filter (\<lambda>(y', m', seen). (y', m') = u) (fst (snd (traced aggregate y m table w))) =
         filter (\<lambda>(y', m', seen). (y', m') = u) (fst w)"
  using assms by (cases w) (auto simp: traced_def split: prod.splits)

lemma sweep_other_months:
  assumes "\<forall>(y, m)\<in>set units. month_key_of y m \<noteq> k"
  shows "month_rows k (processed_months (snd (sweep delay rnd aggregate units tot s))) =
         month_rows k (processed_months s)"
  using assms
proof (induction units arbitrary: tot s)
  case Nil
  then show ?case by simp
next
  case (Cons unit rest)
  obtain y m where unit: "unit = (y, m)" by (cases unit)
  let ?s1 = "s\<lparr>processed_months := set_month_processed y m ''in_progress'' (db_time s) (processed_months s),
                  db_time := Suc (db_time s)\<rparr>"
  from Cons.prems unit have k: "month_key_of y m \<noteq> k"
    and r: "\<forall>(y, m)\<in>set rest. month_key_of y m \<noteq> k"
    by auto
  obtain res g sl where
    p: "retry_with_backoff delay 3 1 rnd (aggregate y m (processed_months ?s1)) (gold ?s1) = (res, g, sl)"
    by (cases "retry_with_backoff delay 3 1 rnd (aggregate y m (processed_months ?s1)) (gold ?s1)")
  show ?case
  proof (cases res)
    case (Inl e)
    with p k unit show ?thesis by (simp add: Let_def month_rows_set_month_processed)
  next
    case (Inr rows)
    let ?s2 = "?s1\<lparr>gold := g,
                   processed_months := set_month_processed y m ''completed'' (db_time ?s1) (processed_months ?s1),
                   db_time := Suc (db_time ?s1)\<rparr>"
    have "month_rows k (processed_months (snd (sweep delay rnd aggregate rest (tot + rows) ?s2))) =
          month_rows k (processed_months ?s2)"
      using r by (rule Cons.IH)
    with p Inr k unit show ?thesis by (simp add: Let_def month_rows_set_month_processed)
  qed
qed

lemma sweep_other_runs:
  assumes "u \<notin> set units"
  shows "aggregate_runs u (snd (sweep delay rnd (traced aggregate) units tot s)) = aggregate_runs u s"
  using assms
proof (induction units arbitrary: tot s)
  case Nil
  then show ?case by simp
next
  case (Cons unit rest)
  obtain y m where unit: "unit = (y, m)" by (cases unit)
  let ?s1 = "s\<lparr>processed_months := set_month_processed y m ''in_progress'' (db_time s) (processed_months s),
                  db_time := Suc (db_time s)\<rparr>"
  let ?f = "traced aggregate y m (processed_months ?s1)"
  let ?F = "\<lambda>tr. filter (\<lambda>(y', m', seen). (y', m') = u) tr"
  from Cons.prems unit have k: "(y, m) \<noteq> u" and r: "u \<notin> set rest" by auto
  obtain res g sl where p: "retry_with_backoff delay 3 1 rnd ?f (gold ?s1) = (res, g, sl)"
    by (cases "retry_with_backoff delay 3 1 rnd ?f (gold ?s1)")
  have "?F (fst (fst (snd (retry_with_backoff delay 3 1 rnd ?f (gold ?s1))))) = ?F (fst (gold s))"
    by (rule retry_preserves [where P = "\<lambda>w. ?F (fst w) = ?F (fst (gold s))"])
       (simp_all add: traced_other_month [OF k])
  with p have g: "?F (fst g) = ?F (fst (gold s))" by simp
  show ?case
  proof (cases res)
    case (Inl e)
    with p g unit show ?thesis by (simp add: Let_def aggregate_runs_def)
  next
    case (Inr rows)
    let ?s2 = "?s1\<lparr>gold := g,
                   processed_months := set_month_processed y m ''completed'' (db_time ?s1) (processed_months ?s1),
                   db_time := Suc (db_time ?s1)\<rparr>"
    have "aggregate_runs u (snd (sweep delay rnd (traced aggregate) rest (tot + rows) ?s2)) = aggregate_runs u ?s2"
      using r by (rule Cons.IH)
    with p Inr g unit show ?thesis by (simp add: Let_def aggregate_runs_def)
  qed
qed

text \<open>
  After \<^verbatim>\<open>set_month_processed\<close> the month has rows, and all of them have the status given.
\<close>

lemma month_rows_after_set:
  "month_rows (month_key_of y m) (set_month_processed y m st now table) \<noteq> []
   \<and> list_all (\<lambda>row. month_status row = st)
        (month_rows (month_key_of y m) (set_month_processed y m st now table))"
proof (cases "list_ex (\<lambda>row. month_key row = month_key_of y m) table")
  case True
  have "filter (\<lambda>row. month_key row = month_key_of y m)
          (map (\<lambda>row. if month_key row = month_key_of y m
                       then row\<lparr>month_status := st, processed_at := now\<rparr> else row) table) =
        map (\<lambda>row. row\<lparr>month_status := st, processed_at := now\<rparr>)
          (filter (\<lambda>row. month_key row = month_key_of y m) table)"
    by (rule filter_map_update) simp
  moreover from True have "filter (\<lambda>row. month_key row = month_key_of y m) table \<noteq> []"
    by (simp add: list_ex_filter)
  ultimately show ?thesis using True
    by (simp add: month_rows_def set_month_processed_def list_all_iff)
next
  case False
  then have "filter (\<lambda>row. month_key row = month_key_of y m) table = []"
    by (simp add: list_ex_filter)
  with False show ?thesis by (simp add: month_rows_def set_month_processed_def)
qed

lemma traced_marked:
  assumes "month_rows (month_key_of y m) table \<noteq> []"
    and "list_all (\<lambda>row. month_status row = ''in_progress'') (month_rows (month_key_of y m) table)"
    and "list_all marked (fst w)"
  shows "list_all marked (fst (snd (traced aggregate y m table w)))"
  using assms by (cases w) (auto simp: traced_def marked_def list_all_iff split: prod.splits)

lemma sweep_marked:
  assumes "list_all marked (fst (gold s))"
  shows "list_all marked (fst (gold (snd (sweep delay rnd (traced aggregate) units tot s))))"
  using assms
proof (induction units arbitrary: tot s)
  case Nil
  then show ?case by simp
next
  case (Cons unit rest)
  obtain y m where unit: "unit = (y, m)" by (cases unit)
  let ?s1 = "s\<lparr>processed_months := set_month_processed y m ''in_progress'' (db_time s) (processed_months s),
                  db_time := Suc (db_time s)\<rparr>"
  let ?f = "traced aggregate y m (processed_months ?s1)"
  obtain res g sl where p: "retry_with_backoff delay 3 1 rnd ?f (gold ?s1) = (res, g, sl)"
    by (cases "retry_with_backoff delay 3 1 rnd ?f (gold ?s1)")
  have rows: "month_rows (month_key_of y m) (processed_months ?s1) \<noteq> []"
    "list_all (\<lambda>row. month_status row = ''in_progress'') (month_rows (month_key_of y m) (processed_months ?s1))"
    using month_rows_after_set [of y m "''in_progress''" "db_time s" "processed_months s"] by simp_all
  have "list_all marked (fst (fst (snd (retry_with_backoff delay 3 1 rnd ?f (gold ?s1)))))"
  proof (rule retry_preserves [where P = "\<lambda>w. list_all marked (fst w)"])
    fix w :: "(int \<times> int \<times> string list) list \<times> 'a"
    assume "list_all marked (fst w)"
    with rows show "list_all marked (fst (snd (?f w)))" by (rule traced_marked)
  next
    show "list_all marked (fst (gold ?s1))" using Cons.prems by simp
  qed
  with p have g: "list_all marked (fst g)" by simp
  show ?case
  proof (cases res)
    case (Inl e)
    with p g unit show ?thesis by (simp add: Let_def)
  next
    case (Inr rows)
    let ?s2 = "?s1\<lparr>gold := g,
                   processed_months := set_month_processed y m ''completed'' (db_time ?s1) (processed_months ?s1),
                   db_time := Suc (db_time ?s1)\<rparr>"
    have "list_all marked (fst (gold (snd (sweep delay rnd (traced aggregate) rest (tot + rows) ?s2))))"
      using g by (intro Cons.IH) simp
    with p Inr unit show ?thesis by (simp add: Let_def)
  qed
qed

lemma month_rows_present: "k \<in> month_key ` set table \<longleftrightarrow> month_rows k table \<noteq> []"
  by (auto simp: month_rows_def filter_empty_conv)

lemma main_sweeps:
  assumes "\<not> arg_reset args" and "\<not> arg_dry_run args"
    and "unprocessed_months args distinct_months (get_processed_months (processed_months s)) = unit # rest"
  shows "snd (main args delay rnd aggregate distinct_months s) =
           snd (sweep delay rnd aggregate (unit # rest) 0 s)
       \<and> fst (main args delay rnd aggregate distinct_months s) =
           (if isl (fst (sweep delay rnd aggregate (unit # rest) 0 s)) then SystemExit 1 else Returned)"
  using assms
  by (cases "sweep delay rnd aggregate (unit # rest) 0 s")
     (auto simp: main_def Let_def split: sum.splits)

lemma main_keeps_month_rows:
  assumes "\<not> arg_reset args" and "k \<in> month_key ` set (processed_months s)"
  shows "month_rows k (processed_months (snd (main args delay rnd aggregate distinct_months s))) =
         month_rows k (processed_months s)"
proof -
  let ?un = "unprocessed_months args distinct_months (get_processed_months (processed_months s))"
  have "\<forall>(y, m)\<in>set ?un. month_key_of y m \<noteq> k"
    using assms(2) unprocessed_months_skips [of _ _ args distinct_months "processed_months s"] by blast
  then have "month_rows k (processed_months (snd (sweep delay rnd aggregate ?un 0 s))) =
      month_rows k (processed_months s)"
    by (rule sweep_other_months)
  then show ?thesis using assms(1)
    by (cases "sweep delay rnd aggregate ?un 0 s") (auto simp: main_def Let_def split: sum.splits)
qed

lemma main_keeps_aggregate_runs:
  assumes "\<not> arg_reset args" and "month_key_of y m \<in> month_key ` set (processed_months s)"
  shows "aggregate_runs (y, m) (snd (main args delay rnd (traced aggregate) distinct_months s)) =
         aggregate_runs (y, m) s"
proof -
  let ?un = "unprocessed_months args distinct_months (get_processed_months (processed_months s))"
  have "(y, m) \<notin> set ?un"
    using assms(2) unprocessed_months_skips [of y m args distinct_months "processed_months s"] by blast
  then have "aggregate_runs (y, m) (snd (sweep delay rnd (traced aggregate) ?un 0 s)) = aggregate_runs (y, m) s"
    by (rule sweep_other_runs)
  then show ?thesis using assms(1)
    by (cases "sweep delay rnd (traced aggregate) ?un 0 s") (auto simp: main_def Let_def split: sum.splits)
qed

lemma runs_keep_month:
  assumes "\<forall>(args, distinct_months)\<in>set rs. \<not> arg_reset args"
    and "month_key_of y m \<in> month_key ` set (processed_months s)"
  shows "month_rows (month_key_of y m) (processed_months (runs delay rnd (traced aggregate) rs s)) =
           month_rows (month_key_of y m) (processed_months s)
       \<and> aggregate_runs (y, m) (runs delay rnd (traced aggregate) rs s) = aggregate_runs (y, m) s"
  using assms
proof (induction rs arbitrary: s)
  case Nil
  then show ?case by simp
next
  case (Cons r rs)
  obtain args distinct_months where r: "r = (args, distinct_months)" by (cases r)
  let ?s' = "snd (main args delay rnd (traced aggregate) distinct_months s)"
  from Cons.prems(1) r have nr: "\<not> arg_reset args"
    and rest: "\<forall>(args, distinct_months)\<in>set rs. \<not> arg_reset args"
    by auto
  have rows: "month_rows (month_key_of y m) (processed_months ?s') =
      month_rows (month_key_of y m) (processed_months s)"
    using nr Cons.prems(2) by (rule main_keeps_month_rows)
  have cnt: "aggregate_runs (y, m) ?s' = aggregate_runs (y, m) s"
    using nr Cons.prems(2) by (rule main_keeps_aggregate_runs)
  have "month_key_of y m \<in> month_key ` set (processed_months ?s')"
  proof -
    from Cons.prems(2) have "month_rows (month_key_of y m) (processed_months s) \<noteq> []"
      by (simp add: month_rows_present)
    then have "month_rows (month_key_of y m) (processed_months ?s') \<noteq> []"
      by (simp add: rows)
    then show ?thesis by (simp add: month_rows_present)
  qed
  from Cons.IH [OF rest this] rows cnt r show ?case by simp
qed

lemma after_traced:
  "after (traced aggregate y m table) (trace, g) n =
     (trace @ replicate n (y, m, map month_status (month_rows (month_key_of y m) table)),
      after (aggregate y m table) g n)"
proof (induction n arbitrary: trace g)
  case 0
  then show ?case by simp
next
  case (Suc n)
  obtain r g' where a: "aggregate y m table g = (r, g')" by (cases "aggregate y m table g")
  then have "snd (traced aggregate y m table (trace, g)) =
      (trace @ [(y, m, map month_status (month_rows (month_key_of y m) table))], g')"
    by (simp add: traced_def)
  with Suc a show ?case by (simp add: replicate_app_Cons_same)
qed

lemma sweep_crash:
  assumes "month_key_of y m \<notin> month_key ` set (processed_months s)"
    and "\<forall>i<3. isl (outcome (traced aggregate y m
            (processed_months s @
               [\<lparr>month_key = month_key_of y m, year = y, month = m, processed_at = db_time s,
                 month_status = ''in_progress''\<rparr>])) (gold s) i)"
  shows "isl (fst (sweep delay rnd (traced aggregate) ((y, m) # rest) tot s))
       \<and> processed_months (snd (sweep delay rnd (traced aggregate) ((y, m) # rest) tot s)) =
           processed_months s @
             [\<lparr>month_key = month_key_of y m, year = y, month = m, processed_at = db_time s,
               month_status = ''in_progress''\<rparr>]
       \<and> fst (gold (snd (sweep delay rnd (traced aggregate) ((y, m) # rest) tot s))) =
           fst (gold s) @ replicate 3 (y, m, [''in_progress''])"
proof -
  let ?row = "\<lparr>month_key = month_key_of y m, year = y, month = m, processed_at = db_time s,
               month_status = ''in_progress''\<rparr>"
  let ?T = "processed_months s @ [?row]"
  let ?s1 = "s\<lparr>processed_months := ?T, db_time := Suc (db_time s)\<rparr>"
  let ?f = "traced aggregate y m ?T"
  have mark: "set_month_processed y m ''in_progress'' (db_time s) (processed_months s) = ?T"
  proof -
    have "\<not> list_ex (\<lambda>row. month_key row = month_key_of y m) (processed_months s)"
    proof
      assume "list_ex (\<lambda>row. month_key row = month_key_of y m) (processed_months s)"
      then obtain row where "row \<in> set (processed_months s)" and "month_key row = month_key_of y m"
        by (auto simp: list_ex_iff)
      then have "month_key_of y m \<in> month_key ` set (processed_months s)" by (metis imageI)
      with assms(1) show False by simp
    qed
    then show ?thesis by (simp add: set_month_processed_def)
  qed
  have seen: "map month_status (month_rows (month_key_of y m) ?T) = [''in_progress'']"
  proof -
    have "month_rows (month_key_of y m) (processed_months s) = []"
      using assms(1) by (simp add: month_rows_present)
    then show ?thesis by (simp add: month_rows_def)
  qed
  have "\<forall>i<nat 3. outcome ?f (gold s) i = Inl (projl (outcome ?f (gold s) i))"
    using assms(2) by simp
  moreover have "(1::int) \<le> 3" by simp
  ultimately have "retry_with_backoff delay 3 1 rnd ?f (gold s) =
      (Inl (Raised (projl (outcome ?f (gold s) (nat 3 - 1)))),
       after ?f (gold s) (nat 3), delays delay 1 rnd (nat 3 - 1))"
    by (rule retry_exhausted)
  moreover have "fst (after ?f (gold s) (nat 3)) = fst (gold s) @ replicate 3 (y, m, [''in_progress''])"
    using after_traced [of aggregate y m ?T "fst (gold s)" "snd (gold s)" "nat 3"] seen by simp
  ultimately show ?thesis by (simp add: Let_def mark)
qed

text \<open>
  Claim C10. \<^verbatim>\<open>get_processed_months\<close> returns the keys of all rows, whatever their status, and
  the sweep leaves out every month whose key is among them. A run that is neither a reset
  nor a dry run and has months to work on is the loop over those months. In that loop the
  aggregate statement of a month only ever runs on a table that holds the month with status
  \<open>in_progress\<close>: the month is marked before the statement runs. So a run cut off by a
  statement that raises on all three attempts, each of which finds the month \<open>in_progress\<close>,
  leaves the row of that month \<open>in_progress\<close>. Over any sequence of later runs without
  \<^verbatim>\<open>--reset\<close>, a month whose key is in the table keeps its rows as they are and the
  aggregate statement never runs for it again. A run with \<^verbatim>\<open>--reset\<close> empties the table,
  after which no month is left out.
\<close>

theorem in_progress_month_never_retried:
  fixes s :: "((int \<times> int \<times> string list) list \<times> 'g) ledger"
  shows
  "set (get_processed_months (processed_months s)) = month_key ` set (processed_months s)
   \<and> (month_key_of y m \<in> month_key ` set (processed_months s) \<longrightarrow>
        (y, m) \<notin> set (unprocessed_months args distinct_months (get_processed_months (processed_months s))))
   \<and> (\<not> arg_reset args \<and> \<not> arg_dry_run args
        \<and> unprocessed_months args distinct_months (get_processed_months (processed_months s)) = (y, m) # rest \<longrightarrow>
        snd (main args delay rnd (traced aggregate) distinct_months s) =
          snd (sweep delay rnd (traced aggregate) ((y, m) # rest) 0 s)
        \<and> fst (main args delay rnd (traced aggregate) distinct_months s) =
            (if isl (fst (sweep delay rnd (traced aggregate) ((y, m) # rest) 0 s))
             then SystemExit 1 else Returned))
   \<and> (list_all marked (fst (gold s)) \<longrightarrow>
        list_all marked (fst (gold (snd (sweep delay rnd (traced aggregate) units tot s)))))
   \<and> (month_key_of y m \<notin> month_key ` set (processed_months s)
        \<and> (\<forall>i<3. isl (outcome (traced aggregate y m
               (processed_months s @
                  [\<lparr>month_key = month_key_of y m, year = y, month = m, processed_at = db_time s,
                    month_status = ''in_progress''\<rparr>])) (gold s) i)) \<longrightarrow>
        isl (fst (sweep delay rnd (traced aggregate) ((y, m) # rest) tot s))
        \<and> processed_months (snd (sweep delay rnd (traced aggregate) ((y, m) # rest) tot s)) =
            processed_months s @
              [\<lparr>month_key = month_key_of y m, year = y, month = m, processed_at = db_time s,
                month_status = ''in_progress''\<rparr>]
        \<and> fst (gold (snd (sweep delay rnd (traced aggregate) ((y, m) # rest) tot s))) =
            fst (gold s) @ replicate 3 (y, m, [''in_progress'']))
   \<and> ((\<forall>(a, d)\<in>set rs. \<not> arg_reset a) \<and> month_key_of y m \<in> month_key ` set (processed_months s) \<longrightarrow>
        month_rows (month_key_of y m) (processed_months (runs delay rnd (traced aggregate) rs s)) =
          month_rows (month_key_of y m) (processed_months s)
        \<and> aggregate_runs (y, m) (runs delay rnd (traced aggregate) rs s) = aggregate_runs (y, m) s)
   \<and> (arg_reset args \<longrightarrow>
        processed_months (snd (main args delay rnd (traced aggregate) distinct_months s)) = []
        \<and> unprocessed_months no_args distinct_months
            (get_processed_months
               (processed_months (snd (main args delay rnd (traced aggregate) distinct_months s)))) =
            distinct_months)"
proof (intro conjI impI)
  show "set (get_processed_months (processed_months s)) = month_key ` set (processed_months s)"
    by (rule set_get_processed_months)
next
  assume "month_key_of y m \<in> month_key ` set (processed_months s)"
  then show "(y, m) \<notin> set (unprocessed_months args distinct_months (get_processed_months (processed_months s)))"
    using unprocessed_months_skips [of y m args distinct_months "processed_months s"] by blast
next
  assume h: "\<not> arg_reset args \<and> \<not> arg_dry_run args
        \<and> unprocessed_months args distinct_months (get_processed_months (processed_months s)) = (y, m) # rest"
  then have a: "\<not> arg_reset args" and b: "\<not> arg_dry_run args"
    and c: "unprocessed_months args distinct_months (get_processed_months (processed_months s)) = (y, m) # rest"
    by blast+
  from main_sweeps [OF a b c, of delay rnd "traced aggregate"]
  show "snd (main args delay rnd (traced aggregate) distinct_months s) =
          snd (sweep delay rnd (traced aggregate) ((y, m) # rest) 0 s)"
    and "fst (main args delay rnd (traced aggregate) distinct_months s) =
            (if isl (fst (sweep delay rnd (traced aggregate) ((y, m) # rest) 0 s))
             then SystemExit 1 else Returned)"
    by blast+
next
  assume "list_all marked (fst (gold s))"
  then show "list_all marked (fst (gold (snd (sweep delay rnd (traced aggregate) units tot s))))"
    by (rule sweep_marked)
next
  assume h: "month_key_of y m \<notin> month_key ` set (processed_months s)
        \<and> (\<forall>i<3. isl (outcome (traced aggregate y m
               (processed_months s @
                  [\<lparr>month_key = month_key_of y m, year = y, month = m, processed_at = db_time s,
                    month_status = ''in_progress''\<rparr>])) (gold s) i))"
  then have a: "month_key_of y m \<notin> month_key ` set (processed_months s)"
    and b: "\<forall>i<3. isl (outcome (traced aggregate y m
               (processed_months s @
                  [\<lparr>month_key = month_key_of y m, year = y, month = m, processed_at = db_time s,
                    month_status = ''in_progress''\<rparr>])) (gold s) i)"
    by blast+
  from sweep_crash [where aggregate = aggregate and y = y and m = m and s = s
      and delay = delay and rnd = rnd and rest = rest and tot = tot, OF a b]
  show "isl (fst (sweep delay rnd (traced aggregate) ((y, m) # rest) tot s))"
    and "processed_months (snd (sweep delay rnd (traced aggregate) ((y, m) # rest) tot s)) =
            processed_months s @
              [\<lparr>month_key = month_key_of y m, year = y, month = m, processed_at = db_time s,
                month_status = ''in_progress''\<rparr>]"
    and "fst (gold (snd (sweep delay rnd (traced aggregate) ((y, m) # rest) tot s))) =
            fst (gold s) @ replicate 3 (y, m, [''in_progress''])"
    by blast+
next
  assume h: "(\<forall>(a, d)\<in>set rs. \<not> arg_reset a) \<and> month_key_of y m \<in> month_key ` set (processed_months s)"
  then have a: "\<forall>(a, d)\<in>set rs. \<not> arg_reset a"
    and b: "month_key_of y m \<in> month_key ` set (processed_months s)"
    by blast+
  from runs_keep_month [OF a b, of delay rnd aggregate]
  show "month_rows (month_key_of y m) (processed_months (runs delay rnd (traced aggregate) rs s)) =
          month_rows (month_key_of y m) (processed_months s)"
    and "aggregate_runs (y, m) (runs delay rnd (traced aggregate) rs s) = aggregate_runs (y, m) s"
    by blast+
next
  assume r: "arg_reset args"
  then show e: "processed_months (snd (main args delay rnd (traced aggregate) distinct_months s)) = []"
    by (simp add: main_def reset_processed_months_def)
  show "unprocessed_months no_args distinct_months
            (get_processed_months
               (processed_months (snd (main args delay rnd (traced aggregate) distinct_months s)))) =
            distinct_months"
    unfolding e by (simp add: unprocessed_months_def no_args_def given_def get_processed_months_def)
qed

lemma january_outcome: "outcome (traced january_fails 2011 1 table) w i = Inl ''OperationalError''"
proof (induction i arbitrary: w)
  case 0
  then show ?case by (cases w) (simp add: outcome_0 traced_def january_fails_def)
next
  case (Suc i)
  then show ?case by (simp add: outcome_Suc)
qed

lemma january_key: "month_key_of 2011 1 = ''2011-01''"
  by (simp add: month_key_of_def str_int_def format_02d_def str_nat.simps)

theorem in_progress_month_never_retried_witness:
  "month_key_of 2011 1 = ''2011-01''
   \<and> (2011, 1) \<notin> set (unprocessed_months no_args [(2010, 12), (2011, 1)]
                         (get_processed_months (processed_months crashed_ledger)))
   \<and> fst (main no_args exact_delay (\<lambda>i. 0) (traced january_fails) [(2011, 1)] fresh_ledger) = SystemExit 1
   \<and> processed_months (snd (main no_args exact_delay (\<lambda>i. 0) (traced january_fails) [(2011, 1)] fresh_ledger)) =
       [\<lparr>month_key = ''2011-01'', year = 2011, month = 1, processed_at = 0, month_status = ''in_progress''\<rparr>]
   \<and> fst (gold (snd (main no_args exact_delay (\<lambda>i. 0) (traced january_fails) [(2011, 1)] fresh_ledger))) =
       [(2011, 1, [''in_progress'']), (2011, 1, [''in_progress'']), (2011, 1, [''in_progress''])]
   \<and> list_all marked
        (fst (gold (snd (sweep exact_delay (\<lambda>i. 0) (traced january_fails) [(2010, 12), (2011, 1)] 0
           fresh_ledger))))
   \<and> month_rows ''2011-01''
        (processed_months (runs exact_delay (\<lambda>i. 0) (traced january_fails)
           [(no_args, [(2010, 12), (2011, 1)]), (no_args, [(2011, 1)])] crashed_ledger)) =
       [\<lparr>month_key = ''2011-01'', year = 2011, month = 1, processed_at = 0, month_status = ''in_progress''\<rparr>]
   \<and> aggregate_runs (2011, 1)
        (runs exact_delay (\<lambda>i. 0) (traced january_fails)
           [(no_args, [(2010, 12), (2011, 1)]), (no_args, [(2011, 1)])] crashed_ledger) = 3
   \<and> processed_months (snd (main (no_args\<lparr>arg_reset := True\<rparr>) exact_delay (\<lambda>i. 0) (traced january_fails)
        [(2010, 12), (2011, 1)] crashed_ledger)) = []"
proof -
  have present: "month_key_of 2011 1 \<in> month_key ` set (processed_months crashed_ledger)"
    by (simp add: january_key crashed_ledger_def)
  have absent: "month_key_of 2011 1 \<notin> month_key ` set (processed_months fresh_ledger)
        \<and> (\<forall>i<3. isl (outcome (traced january_fails 2011 1
               (processed_months fresh_ledger @
                  [\<lparr>month_key = month_key_of 2011 1, year = 2011, month = 1,
                    processed_at = db_time fresh_ledger, month_status = ''in_progress''\<rparr>]))
               (gold fresh_ledger) i))"
    by (simp add: fresh_ledger_def january_outcome)
  have todo: "\<not> arg_reset no_args \<and> \<not> arg_dry_run no_args
        \<and> unprocessed_months no_args [(2011, 1)] (get_processed_months (processed_months fresh_ledger)) =
            (2011, 1) # []"
    by (simp add: no_args_def unprocessed_months_def given_def get_processed_months_def fresh_ledger_def)
  have unmarked: "list_all marked (fst (gold fresh_ledger))" by (simp add: fresh_ledger_def)
  have noreset: "(\<forall>(a, d)\<in>set [(no_args, [(2010, 12), (2011, 1)]), (no_args, [(2011, 1)])]. \<not> arg_reset a)
        \<and> month_key_of 2011 1 \<in> month_key ` set (processed_months crashed_ledger)"
    using present by (simp add: no_args_def)
  have reset: "arg_reset (no_args\<lparr>arg_reset := True\<rparr>)" by simp
  have rows: "month_rows (month_key_of 2011 1) (processed_months crashed_ledger) =
      [\<lparr>month_key = ''2011-01'', year = 2011, month = 1, processed_at = 0, month_status = ''in_progress''\<rparr>]"
    and cnt: "aggregate_runs (2011, 1) crashed_ledger = 3"
    by (simp_all add: january_key crashed_ledger_def month_rows_def aggregate_runs_def)
  note t1 = in_progress_month_never_retried [where s = crashed_ledger and y = 2011 and m = 1
      and args = no_args and distinct_months = "[(2010, 12), (2011, 1)]" and rnd = "\<lambda>i. 0"
      and delay = exact_delay and aggregate = january_fails
      and rs = "[(no_args, [(2010, 12), (2011, 1)]), (no_args, [(2011, 1)])]"]
  note t2 = in_progress_month_never_retried [where s = fresh_ledger and y = 2011 and m = 1
      and args = no_args and distinct_months = "[(2011, 1)]" and rnd = "\<lambda>i. 0" and delay = exact_delay
      and aggregate = january_fails and rest = "[]" and tot = 0
      and units = "[(2010, 12), (2011, 1)]"]
  note t3 = in_progress_month_never_retried [where s = crashed_ledger
      and args = "no_args\<lparr>arg_reset := True\<rparr>" and distinct_months = "[(2010, 12), (2011, 1)]"
      and rnd = "\<lambda>i. 0" and delay = exact_delay and aggregate = january_fails]
  from t1 present have a: "(2011, 1) \<notin> set (unprocessed_months no_args [(2010, 12), (2011, 1)]
                         (get_processed_months (processed_months crashed_ledger)))"
    by blast
  from t1 noreset have b: "month_rows (month_key_of 2011 1)
        (processed_months (runs exact_delay (\<lambda>i. 0) (traced january_fails)
           [(no_args, [(2010, 12), (2011, 1)]), (no_args, [(2011, 1)])] crashed_ledger)) =
       month_rows (month_key_of 2011 1) (processed_months crashed_ledger)"
    and c: "aggregate_runs (2011, 1)
        (runs exact_delay (\<lambda>i. 0) (traced january_fails)
           [(no_args, [(2010, 12), (2011, 1)]), (no_args, [(2011, 1)])] crashed_ledger) =
       aggregate_runs (2011, 1) crashed_ledger"
    by blast+
  from t2 absent have d: "isl (fst (sweep exact_delay (\<lambda>i. 0) (traced january_fails) [(2011, 1)] 0 fresh_ledger))"
    and e: "processed_months (snd (sweep exact_delay (\<lambda>i. 0) (traced january_fails) [(2011, 1)] 0 fresh_ledger)) =
       processed_months fresh_ledger @
         [\<lparr>month_key = month_key_of 2011 1, year = 2011, month = 1, processed_at = db_time fresh_ledger,
           month_status = ''in_progress''\<rparr>]"
    and e': "fst (gold (snd (sweep exact_delay (\<lambda>i. 0) (traced january_fails) [(2011, 1)] 0 fresh_ledger))) =
       fst (gold fresh_ledger) @ replicate 3 (2011, 1, [''in_progress''])"
    by blast+
  from t2 todo have m1: "snd (main no_args exact_delay (\<lambda>i. 0) (traced january_fails) [(2011, 1)] fresh_ledger) =
       snd (sweep exact_delay (\<lambda>i. 0) (traced january_fails) [(2011, 1)] 0 fresh_ledger)"
    and m2: "fst (main no_args exact_delay (\<lambda>i. 0) (traced january_fails) [(2011, 1)] fresh_ledger) =
       (if isl (fst (sweep exact_delay (\<lambda>i. 0) (traced january_fails) [(2011, 1)] 0 fresh_ledger))
        then SystemExit 1 else Returned)"
    by blast+
  from t2 unmarked have k: "list_all marked
        (fst (gold (snd (sweep exact_delay (\<lambda>i. 0) (traced january_fails) [(2010, 12), (2011, 1)] 0
           fresh_ledger))))"
    by blast
  from t3 reset have f: "processed_months (snd (main (no_args\<lparr>arg_reset := True\<rparr>) exact_delay (\<lambda>i. 0)
        (traced january_fails) [(2010, 12), (2011, 1)] crashed_ledger)) = []"
    by blast
  have r3: "replicate 3 (2011::int, 1::int, [''in_progress'']) =
      [(2011, 1, [''in_progress'']), (2011, 1, [''in_progress'']), (2011, 1, [''in_progress''])]"
    by (simp add: numeral_3_eq_3)
  from a b c d e e' f k rows cnt show ?thesis
    unfolding m1 m2 by (simp add: january_key fresh_ledger_def r3)
qed

end
